theory Spec2Isabelle
  imports Complex_Main "HOL-Library.List_Lexorder" "HOL-Library.Char_ord"
begin

section \<open>Python values and the builtins the code calls\<close>

text \<open>
  An award is a JSON object decoded by \<^verbatim>\<open>response.json()\<close>: a dictionary from strings
  to JSON values. Floating-point numbers are kept abstract (the type parameter \<open>'f\<close>);
  everything the code does with them goes through the record of builtins below.
\<close>

datatype 'f pyval =
    PNone
  | PBool bool
  | PInt int
  | PFloat 'f
  | PStr string
  | PList "'f pyval list"
  | PDict "(string \<times> 'f pyval) list"

type_synonym 'f award = "string \<rightharpoonup> 'f pyval"

text \<open>
  The exceptions the model tells apart. \<open>UnicodeEncodeError\<close> is what the sqlite3 module
  raises for a string it cannot encode as UTF-8; \<open>OtherError\<close> stands for any exception
  that no handler of \<open>fetch_batch\<close> names.
\<close>

datatype exn =
  ValueError | TypeError | OverflowError | Sqlite3Error | UnicodeEncodeError | OtherError

text \<open>
  The functions of Python and of SQLite that are not code of this repository. They are
  parameters of the model: \<open>float_of_str s\<close> is \<^verbatim>\<open>float(s)\<close> (\<open>None\<close> when it raises
  ValueError), \<open>int_of_str s\<close> is \<^verbatim>\<open>int(s)\<close> on a string, \<open>int_of_float\<close> is
  \<^verbatim>\<open>int(f)\<close> on a float (ValueError on nan, OverflowError on an infinity),
  \<open>float_is_zero f\<close> is \<^verbatim>\<open>f == 0.0\<close>, \<open>float_is_nan f\<close> is \<^verbatim>\<open>math.isnan(f)\<close>,
  \<open>repr_other\<close> is \<^verbatim>\<open>str(v)\<close> on a float, a list or a dictionary, \<open>json_dumps\<close> is
  \<^verbatim>\<open>json.dumps\<close>; \<open>utf8_encodable s\<close> says that the string has a UTF-8 encoding (a
  string decoded from JSON may hold a lone surrogate, which has none); \<open>text_of_real\<close>
  and \<open>real_of_int\<close> are the conversions SQLite applies to a value stored in a column
  of TEXT or of REAL affinity.
\<close>

record 'f builtins =
  float_of_str :: "string \<Rightarrow> 'f option"
  int_of_str :: "string \<Rightarrow> int option"
  int_of_float :: "'f \<Rightarrow> exn + int"
  float_is_zero :: "'f \<Rightarrow> bool"
  float_is_nan :: "'f \<Rightarrow> bool"
  utf8_encodable :: "string \<Rightarrow> bool"
  repr_other :: "'f pyval \<Rightarrow> string"
  json_dumps :: "'f award \<Rightarrow> string"
  text_of_real :: "'f \<Rightarrow> string"
  real_of_int :: "int \<Rightarrow> 'f"

text \<open>Truth value of a Python object, as \<^verbatim>\<open>if x\<close> and \<^verbatim>\<open>not x\<close> read it.\<close>

fun py_truthy :: "'f builtins \<Rightarrow> 'f pyval \<Rightarrow> bool" where
  "py_truthy B PNone = False"
| "py_truthy B (PBool b) = b"
| "py_truthy B (PInt n) = (n \<noteq> 0)"
| "py_truthy B (PFloat f) = (\<not> float_is_zero B f)"
| "py_truthy B (PStr s) = (s \<noteq> [])"
| "py_truthy B (PList xs) = (xs \<noteq> [])"
| "py_truthy B (PDict kvs) = (kvs \<noteq> [])"

text \<open>\<^verbatim>\<open>award.get(key)\<close>: the value, or None when the key is absent.\<close>

definition dict_get :: "'f award \<Rightarrow> string \<Rightarrow> 'f pyval" where
  "dict_get award key = (case award key of None \<Rightarrow> PNone | Some v \<Rightarrow> v)"

text \<open>\<^verbatim>\<open>str(n)\<close> for an integer: its decimal digits, with a minus sign when negative.\<close>

fun digits_of_nat :: "nat \<Rightarrow> string" where
  "digits_of_nat n =
     (if n < 10 then [''0123456789'' ! n]
      else digits_of_nat (n div 10) @ [''0123456789'' ! (n mod 10)])"

definition str_int :: "int \<Rightarrow> string" where
  "str_int n = (if n < 0 then CHR ''-'' # digits_of_nat (nat (- n)) else digits_of_nat (nat n))"

fun py_str :: "'f builtins \<Rightarrow> 'f pyval \<Rightarrow> string" where
  "py_str B PNone = ''None''"
| "py_str B (PBool b) = (if b then ''True'' else ''False'')"
| "py_str B (PInt n) = str_int n"
| "py_str B (PStr s) = s"
| "py_str B v = repr_other B v"

section \<open>Configuration (config/config.py)\<close>

definition MAX_RETRIES :: nat where "MAX_RETRIES = 3"
definition RETRY_DELAY :: nat where "RETRY_DELAY = 5"
definition BATCH_SIZE :: nat where "BATCH_SIZE = 1000"
definition PROGRESS_UPDATE_INTERVAL :: nat where "PROGRESS_UPDATE_INTERVAL = 10"
definition CHECKPOINT_INTERVAL :: nat where "CHECKPOINT_INTERVAL = 50"
definition UPDATE_CHECK_DAYS :: int where "UPDATE_CHECK_DAYS = 7"

definition REQUIRED_FIELDS :: "string list" where
  "REQUIRED_FIELDS =
     [''firm'', ''award_title'', ''agency'', ''phase'', ''program'',
      ''award_amount'', ''proposal_award_date'', ''contract'']"

section \<open>Validation (SBIRInitialDownloader.validate_batch)\<close>

definition missing_fields :: "'f award \<Rightarrow> string list" where
  "missing_fields award = filter (\<lambda>field. award field = None) REQUIRED_FIELDS"

text \<open>
  The loop over the page: \<^verbatim>\<open>continue\<close> on a missing required field, \<^verbatim>\<open>continue\<close> on a
  falsy firm or title, otherwise append the award itself to \<open>valid_awards\<close>.
\<close>

fun validate_loop :: "'f builtins \<Rightarrow> 'f award list \<Rightarrow> 'f award list \<Rightarrow> 'f award list" where
  "validate_loop B [] valid_awards = valid_awards"
| "validate_loop B (award # rest) valid_awards =
     (if missing_fields award \<noteq> [] then validate_loop B rest valid_awards
      else if \<not> py_truthy B (dict_get award ''firm'')
              \<or> \<not> py_truthy B (dict_get award ''award_title'')
      then validate_loop B rest valid_awards
      else validate_loop B rest (valid_awards @ [award]))"

definition validate_batch :: "'f builtins \<Rightarrow> 'f award list \<Rightarrow> 'f award list" where
  "validate_batch B awards = validate_loop B awards []"

text \<open>
  The contract as the specification words it: no field of the required-field set is
  missing, and neither the firm nor the title is empty (empty as Python's \<^verbatim>\<open>not x\<close>
  reads it: None, the empty string, zero, an empty container).
\<close>

definition has_all_required :: "'f award \<Rightarrow> bool" where
  "has_all_required award = list_all (\<lambda>field. award field \<noteq> None) REQUIRED_FIELDS"

definition field_empty :: "'f builtins \<Rightarrow> 'f award \<Rightarrow> string \<Rightarrow> bool" where
  "field_empty B award key = (\<not> py_truthy B (dict_get award key))"

definition satisfies_contract :: "'f builtins \<Rightarrow> 'f award \<Rightarrow> bool" where
  "satisfies_contract B award =
     (has_all_required award \<and> \<not> field_empty B award ''firm''
      \<and> \<not> field_empty B award ''award_title'')"

section \<open>Normalisation (the method \<^verbatim>\<open>_process_award_for_db\<close> of SBIRDatabase)\<close>

text \<open>\<^verbatim>\<open>s.replace(',', '')\<close>\<close>

definition replace_commas :: "string \<Rightarrow> string" where
  "replace_commas s = filter (\<lambda>c. c \<noteq> CHR '','') s"

definition py_float :: "'f builtins \<Rightarrow> string \<Rightarrow> exn + 'f" where
  "py_float B s = (case float_of_str B s of None \<Rightarrow> Inl ValueError | Some f \<Rightarrow> Inr f)"

text \<open>\<^verbatim>\<open>int(v)\<close>: a bool is an int, a float is truncated, a string is parsed.\<close>

fun py_int :: "'f builtins \<Rightarrow> 'f pyval \<Rightarrow> exn + int" where
  "py_int B PNone = Inl TypeError"
| "py_int B (PBool b) = Inr (if b then 1 else 0)"
| "py_int B (PInt n) = Inr n"
| "py_int B (PFloat f) = int_of_float B f"
| "py_int B (PStr s) = (case int_of_str B s of None \<Rightarrow> Inl ValueError | Some n \<Rightarrow> Inr n)"
| "py_int B (PList xs) = Inl TypeError"
| "py_int B (PDict kvs) = Inl TypeError"

text \<open>\<^verbatim>\<open>except (ValueError, TypeError)\<close>\<close>

definition caught :: "exn \<Rightarrow> bool" where
  "caught e = (e = ValueError \<or> e = TypeError)"

definition convert_award_amount :: "'f builtins \<Rightarrow> 'f award \<Rightarrow> exn + 'f award" where
  "convert_award_amount B processed =
     (case processed ''award_amount'' of
        None \<Rightarrow> Inr processed
      | Some v \<Rightarrow>
          if py_truthy B v then
            (case py_float B (replace_commas (py_str B v)) of
               Inr f \<Rightarrow> Inr (processed(''award_amount'' \<mapsto> PFloat f))
             | Inl e \<Rightarrow> if caught e then Inr (processed(''award_amount'' \<mapsto> PNone)) else Inl e)
          else Inr processed)"

definition int_fields :: "string list" where
  "int_fields = [''solicitation_year'', ''award_year'', ''number_employees'', ''award_link'']"

definition convert_int_field :: "'f builtins \<Rightarrow> string \<Rightarrow> 'f award \<Rightarrow> exn + 'f award" where
  "convert_int_field B field processed =
     (case processed field of
        None \<Rightarrow> Inr processed
      | Some v \<Rightarrow>
          if v \<noteq> PNone then
            (case py_int B v of
               Inr n \<Rightarrow> Inr (processed(field \<mapsto> PInt n))
             | Inl e \<Rightarrow> if caught e then Inr (processed(field \<mapsto> PNone)) else Inl e)
          else Inr processed)"

fun convert_int_fields :: "'f builtins \<Rightarrow> string list \<Rightarrow> 'f award \<Rightarrow> exn + 'f award" where
  "convert_int_fields B [] processed = Inr processed"
| "convert_int_fields B (field # rest) processed =
     (case convert_int_field B field processed of
        Inl e \<Rightarrow> Inl e
      | Inr processed' \<Rightarrow> convert_int_fields B rest processed')"

definition process_award_for_db :: "'f builtins \<Rightarrow> 'f award \<Rightarrow> exn + 'f award" where
  "process_award_for_db B award =
     (case convert_award_amount B award of
        Inl e \<Rightarrow> Inl e
      | Inr processed \<Rightarrow>
          convert_int_fields B int_fields
            (processed(''raw_data'' \<mapsto> PStr (json_dumps B award))))"

section \<open>The SQLite store (SBIRDatabase)\<close>

text \<open>
  A stored cell. The \<open>awards\<close> table declares every column TEXT but the four INTEGER
  columns and the REAL column \<open>award_amount\<close>; SQLite converts a bound value by the
  affinity of its column before it checks constraints and stores it.
\<close>

datatype 'f sqlval = SqlNull | SqlInt int | SqlReal 'f | SqlText string

datatype affinity = TEXT | INTEGER | REAL

definition award_columns :: "string list" where
  "award_columns =
     [''firm'', ''award_title'', ''agency'', ''branch'', ''phase'', ''program'',
      ''agency_tracking_number'', ''contract'', ''proposal_award_date'', ''contract_end_date'',
      ''solicitation_number'', ''solicitation_year'', ''topic_code'', ''award_year'',
      ''award_amount'', ''duns'', ''uei'', ''hubzone_owned'',
      ''socially_economically_disadvantaged'',
      ''women_owned'', ''number_employees'', ''company_url'', ''address1'', ''address2'',
      ''city'', ''state'', ''zip'', ''poc_name'', ''poc_title'', ''poc_phone'', ''poc_email'',
      ''pi_name'', ''pi_title'', ''pi_phone'', ''pi_email'', ''ri_name'', ''ri_poc_name'',
      ''ri_poc_phone'', ''research_area_keywords'', ''abstract'', ''award_link'', ''raw_data'']"

definition column_affinity :: "string \<Rightarrow> affinity" where
  "column_affinity c =
     (if c = ''solicitation_year'' \<or> c = ''award_year'' \<or> c = ''number_employees''
         \<or> c = ''award_link'' then INTEGER
      else if c = ''award_amount'' then REAL
      else TEXT)"

text \<open>
  How the sqlite3 module binds a Python value: None, int (a bool is an int), float and
  str are supported. An int must fit 64 bits (OverflowError otherwise); a float that is
  a NaN is stored as NULL (\<^verbatim>\<open>sqlite3_bind_double\<close> does so); a str is encoded as UTF-8
  and refused with a UnicodeEncodeError when it has no encoding; anything else is
  refused with an sqlite3.Error.
\<close>

fun bind_value :: "'f builtins \<Rightarrow> 'f pyval \<Rightarrow> exn + 'f sqlval" where
  "bind_value B PNone = Inr SqlNull"
| "bind_value B (PBool b) = Inr (SqlInt (if b then 1 else 0))"
| "bind_value B (PInt n) =
     (if - (2 ^ 63) \<le> n \<and> n < 2 ^ 63 then Inr (SqlInt n) else Inl OverflowError)"
| "bind_value B (PFloat f) = Inr (if float_is_nan B f then SqlNull else SqlReal f)"
| "bind_value B (PStr s) = (if utf8_encodable B s then Inr (SqlText s) else Inl UnicodeEncodeError)"
| "bind_value B (PList xs) = Inl Sqlite3Error"
| "bind_value B (PDict kvs) = Inl Sqlite3Error"

text \<open>
  Column affinity. A number stored in a TEXT column becomes its text; an integer stored
  in the REAL column becomes a real. The remaining conversions (numeric-looking text in
  an INTEGER or REAL column) do not arise: after \<open>process_award_for_db\<close> an integer
  field is an int or None, and a string left in \<open>award_amount\<close> is the empty string.
\<close>

fun apply_affinity :: "'f builtins \<Rightarrow> affinity \<Rightarrow> 'f sqlval \<Rightarrow> 'f sqlval" where
  "apply_affinity B TEXT (SqlInt n) = SqlText (str_int n)"
| "apply_affinity B TEXT (SqlReal f) = SqlText (text_of_real B f)"
| "apply_affinity B REAL (SqlInt n) = SqlReal (real_of_int B n)"
| "apply_affinity B a v = v"

text \<open>
  Binding the named parameters of the INSERT statement from one processed award: a
  column the dictionary has no key for is an sqlite3.Error (no value supplied for the
  binding); keys that are not columns are ignored.
\<close>

fun bind_columns ::
  "'f builtins \<Rightarrow> 'f award \<Rightarrow> string list \<Rightarrow> exn + (string \<rightharpoonup> 'f sqlval)" where
  "bind_columns B processed [] = Inr Map.empty"
| "bind_columns B processed (c # cs) =
     (case processed c of
        None \<Rightarrow> Inl Sqlite3Error
      | Some v \<Rightarrow>
          (case bind_value B v of
             Inl e \<Rightarrow> Inl e
           | Inr x \<Rightarrow>
               (case bind_columns B processed cs of
                  Inl e \<Rightarrow> Inl e
                | Inr m \<Rightarrow> Inr (m(c \<mapsto> apply_affinity B (column_affinity c) x)))))"

record 'f award_row =
  row_id :: nat
  cells :: "string \<rightharpoonup> 'f sqlval"
  created_at :: nat
  updated_at :: nat

text \<open>
  The database: the rows of the table \<open>awards\<close> in rowid order, the AUTOINCREMENT counter of the
  table (the largest rowid ever used) and the key-value table \<open>scraper_metadata\<close>.
\<close>

record 'f database =
  awards_table :: "'f award_row list"
  awards_seq :: nat
  scraper_metadata :: "string \<rightharpoonup> string"

definition cell :: "(string \<rightharpoonup> 'f sqlval) \<Rightarrow> string \<Rightarrow> 'f sqlval" where
  "cell m c = (case m c of None \<Rightarrow> SqlNull | Some v \<Rightarrow> v)"

text \<open>\<^verbatim>\<open>UNIQUE(contract, agency, agency_tracking_number)\<close>\<close>

definition identity_columns :: "string list" where
  "identity_columns = [''contract'', ''agency'', ''agency_tracking_number'']"

definition identity_of :: "(string \<rightharpoonup> 'f sqlval) \<Rightarrow> 'f sqlval list" where
  "identity_of m = map (cell m) identity_columns"

text \<open>
  A stored row conflicts with a new one under the UNIQUE constraint when the three
  columns are equal and none of them is NULL: SQLite takes NULLs to be distinct from
  every value, other NULLs included.
\<close>

definition violates_unique :: "(string \<rightharpoonup> 'f sqlval) \<Rightarrow> 'f award_row \<Rightarrow> bool" where
  "violates_unique new r =
     (SqlNull \<notin> set (identity_of new) \<and> identity_of (cells r) = identity_of new)"

definition next_rowid :: "'f database \<Rightarrow> nat" where
  "next_rowid db = Suc (fold max (map row_id (awards_table db)) (awards_seq db))"

text \<open>
  \<^verbatim>\<open>INSERT OR REPLACE\<close> of one row at time \<open>now\<close> (\<^verbatim>\<open>CURRENT_TIMESTAMP\<close>): the rows
  that conflict are deleted, then the new row is inserted under a fresh rowid;
  \<open>created_at\<close> takes its default and \<open>updated_at\<close> the value of the statement.
\<close>

definition insert_or_replace ::
  "nat \<Rightarrow> (string \<rightharpoonup> 'f sqlval) \<Rightarrow> 'f database \<Rightarrow> 'f database" where
  "insert_or_replace now new db =
     db\<lparr>awards_table :=
          filter (\<lambda>r. \<not> violates_unique new r) (awards_table db)
          @ [\<lparr>row_id = next_rowid db, cells = new, created_at = now, updated_at = now\<rparr>],
        awards_seq := next_rowid db\<rparr>"

text \<open>
  \<^verbatim>\<open>cursor.executemany(insert_sql, processed_awards)\<close>: one statement per award, in
  order; \<open>clk i\<close> is \<^verbatim>\<open>CURRENT_TIMESTAMP\<close> at statement \<open>i\<close>.
\<close>

fun executemany ::
  "'f builtins \<Rightarrow> (nat \<Rightarrow> nat) \<Rightarrow> nat \<Rightarrow> 'f award list \<Rightarrow> 'f database \<Rightarrow> exn + 'f database" where
  "executemany B clk i [] db = Inr db"
| "executemany B clk i (processed # rest) db =
     (case bind_columns B processed award_columns of
        Inl e \<Rightarrow> Inl e
      | Inr new \<Rightarrow> executemany B clk (Suc i) rest (insert_or_replace (clk i) new db))"

fun process_all :: "'f builtins \<Rightarrow> 'f award list \<Rightarrow> exn + 'f award list" where
  "process_all B [] = Inr []"
| "process_all B (award # rest) =
     (case process_award_for_db B award of
        Inl e \<Rightarrow> Inl e
      | Inr processed_award \<Rightarrow>
          (case process_all B rest of
             Inl e \<Rightarrow> Inl e
           | Inr processed_awards \<Rightarrow> Inr (processed_award # processed_awards)))"

text \<open>
  \<open>insert_awards\<close>. \<open>fault\<close> says that the storage under the connection fails during
  the call (an sqlite3.Error raised by \<^verbatim>\<open>executemany\<close> or \<^verbatim>\<open>commit\<close>). An exception
  leaves the method before \<^verbatim>\<open>commit\<close>, and every caller then closes the connection, so
  the committed database is the one before the call: \<open>Inl\<close> carries no new database.
  On success the method returns \<^verbatim>\<open>cursor.rowcount\<close>, one change per statement.
\<close>

definition insert_awards ::
  "'f builtins \<Rightarrow> (nat \<Rightarrow> nat) \<Rightarrow> bool \<Rightarrow> 'f award list \<Rightarrow> 'f database
     \<Rightarrow> exn + (nat \<times> 'f database)" where
  "insert_awards B clk fault awards_in db =
     (if awards_in = [] then Inr (0, db)
      else
        (case process_all B awards_in of
           Inl e \<Rightarrow> Inl e
         | Inr processed_awards \<Rightarrow>
             if fault then Inl Sqlite3Error
             else
               (case executemany B clk 0 processed_awards db of
                  Inl e \<Rightarrow> Inl e
                | Inr db' \<Rightarrow> Inr (length processed_awards, db'))))"

text \<open>
  The read operations and \<open>set_metadata\<close>. \<open>sql_*\<close> is the statement run on the
  connection, which raises sqlite3.Error when the storage fails; the method around it
  is the \<^verbatim>\<open>try\<close>/\<^verbatim>\<open>except sqlite3.Error\<close> of the source.
\<close>

definition sql_count_awards :: "bool \<Rightarrow> 'f database \<Rightarrow> exn + nat" where
  "sql_count_awards fault db = (if fault then Inl Sqlite3Error else Inr (length (awards_table db)))"

definition get_record_count :: "bool \<Rightarrow> 'f database \<Rightarrow> exn + nat" where
  "get_record_count fault db =
     (case sql_count_awards fault db of
        Inr count \<Rightarrow> Inr count
      | Inl e \<Rightarrow> if e = Sqlite3Error then Inr 0 else Inl e)"

definition sql_select_metadata :: "bool \<Rightarrow> string \<Rightarrow> 'f database \<Rightarrow> exn + string option" where
  "sql_select_metadata fault key db =
     (if fault then Inl Sqlite3Error else Inr (scraper_metadata db key))"

definition get_metadata :: "bool \<Rightarrow> string \<Rightarrow> 'f database \<Rightarrow> exn + string option" where
  "get_metadata fault key db =
     (case sql_select_metadata fault key db of
        Inr result \<Rightarrow> Inr result
      | Inl e \<Rightarrow> if e = Sqlite3Error then Inr None else Inl e)"

definition sql_replace_metadata ::
  "bool \<Rightarrow> string \<Rightarrow> string \<Rightarrow> 'f database \<Rightarrow> exn + 'f database" where
  "sql_replace_metadata fault key v db =
     (if fault then Inl Sqlite3Error
      else Inr (db\<lparr>scraper_metadata := (scraper_metadata db)(key \<mapsto> v)\<rparr>))"

definition set_metadata ::
  "bool \<Rightarrow> string \<Rightarrow> string \<Rightarrow> 'f database \<Rightarrow> exn + 'f database" where
  "set_metadata fault key v db =
     (case sql_replace_metadata fault key v db of
        Inr db' \<Rightarrow> Inr db'
      | Inl e \<Rightarrow> Inl e)"

definition proposal_dates :: "'f database \<Rightarrow> string list" where
  "proposal_dates db =
     List.map_filter
       (\<lambda>r. case cell (cells r) ''proposal_award_date'' of SqlText s \<Rightarrow> Some s | _ \<Rightarrow> None)
       (awards_table db)"

text \<open>
  \<^verbatim>\<open>SELECT MAX(proposal_award_date) FROM awards WHERE proposal_award_date IS NOT NULL\<close>:
  the column is TEXT, its values compare as byte strings.
\<close>

definition sql_max_proposal_date :: "bool \<Rightarrow> 'f database \<Rightarrow> exn + string option" where
  "sql_max_proposal_date fault db =
     (if fault then Inl Sqlite3Error
      else Inr (case proposal_dates db of [] \<Rightarrow> None | d # ds \<Rightarrow> Some (fold max ds d)))"

definition get_latest_date :: "bool \<Rightarrow> 'f database \<Rightarrow> exn + string option" where
  "get_latest_date fault db =
     (case sql_max_proposal_date fault db of
        Inr result \<Rightarrow>
          Inr (case result of None \<Rightarrow> None | Some s \<Rightarrow> if s \<noteq> [] then Some s else None)
      | Inl e \<Rightarrow> if e = Sqlite3Error then Inr None else Inl e)"

section \<open>Paginated fetch (SBIRInitialDownloader.fetch_batch)\<close>

text \<open>
  The exceptions of one HTTP attempt, by the two classes the handlers of \<open>fetch_batch\<close>
  name. \<^verbatim>\<open>session.get\<close> and \<^verbatim>\<open>raise_for_status\<close> raise a
  \<^verbatim>\<open>requests.exceptions.RequestException\<close> (connection error, timeout, non-2xx status).
  \<^verbatim>\<open>response.json()\<close> raises \<^verbatim>\<open>requests.exceptions.JSONDecodeError\<close> on a body that does
  not parse: that class derives from \<^verbatim>\<open>requests.exceptions.InvalidJSONError\<close>, a
  RequestException, and from \<^verbatim>\<open>json.JSONDecodeError\<close>. A \<^verbatim>\<open>json.JSONDecodeError\<close> that
  is no RequestException is what the json module itself raises (and what
  \<^verbatim>\<open>response.json()\<close> raised before requests 2.27). Any other exception is of neither
  class.
\<close>

datatype exception_class =
    TransportError
  | RequestsJSONDecodeError
  | JsonJSONDecodeError
  | OtherException

fun is_RequestException :: "exception_class \<Rightarrow> bool" where
  "is_RequestException TransportError = True"
| "is_RequestException RequestsJSONDecodeError = True"
| "is_RequestException JsonJSONDecodeError = False"
| "is_RequestException OtherException = False"

fun is_JSONDecodeError :: "exception_class \<Rightarrow> bool" where
  "is_JSONDecodeError TransportError = False"
| "is_JSONDecodeError RequestsJSONDecodeError = True"
| "is_JSONDecodeError JsonJSONDecodeError = True"
| "is_JSONDecodeError OtherException = False"

text \<open>
  The body of a response that parses: a list of awards, an object, or some other JSON
  value. Under the key \<^verbatim>\<open>docs\<close> an object has a list of awards or a value without a
  length (null, a number, a boolean), or it has no such key. (A string or an object
  under \<^verbatim>\<open>docs\<close> has a length and is returned as it is; such a body is not modelled,
  as a list whose elements are not objects is not.)
\<close>

datatype 'f docs = DocsList "'f award list" | DocsUnsized

datatype 'f body = JsonList "'f award list" | JsonDict "'f docs option" | JsonOther

datatype 'f http_outcome = Raised exception_class | Response "'f body"

text \<open>
  What a call of \<open>fetch_batch\<close> does: the list it returns, if it returns one (\<open>page\<close>
  is \<open>None\<close> when it returns Python's None and when it raises), the exception that
  leaves it, if one does, the attempts it made and the delays it slept.
\<close>

record 'f fetched =
  page :: "'f award list option"
  raised :: "exn option"
  requests :: "nat list"
  sleeps :: "nat list"

text \<open>
  The attempts of \<open>fetch_batch\<close>. The handlers are tried in the order of the source:
  the one for RequestException first, then the one for \<^verbatim>\<open>json.JSONDecodeError\<close>; an
  exception of neither class leaves the function. So does the TypeError of
  \<^verbatim>\<open>len(awards)\<close> in the debug message, when \<^verbatim>\<open>data.get('docs', [])\<close> has no length.
  When the range of attempts is exhausted the function returns None.
\<close>

fun fetch_attempts ::
  "(nat \<Rightarrow> 'f http_outcome) \<Rightarrow> nat list \<Rightarrow> nat list \<Rightarrow> nat list \<Rightarrow> 'f fetched" where
  "fetch_attempts http [] tried slept =
     \<lparr>page = None, raised = None, requests = tried, sleeps = slept\<rparr>"
| "fetch_attempts http (attempt # later) tried slept =
     (case http attempt of
        Response data \<Rightarrow>
          (case data of
             JsonList awards \<Rightarrow>
               \<lparr>page = Some awards, raised = None, requests = tried @ [attempt], sleeps = slept\<rparr>
           | JsonDict None \<Rightarrow>
               \<lparr>page = Some [], raised = None, requests = tried @ [attempt], sleeps = slept\<rparr>
           | JsonDict (Some (DocsList awards)) \<Rightarrow>
               \<lparr>page = Some awards, raised = None, requests = tried @ [attempt], sleeps = slept\<rparr>
           | JsonDict (Some DocsUnsized) \<Rightarrow>
               \<lparr>page = None, raised = Some TypeError, requests = tried @ [attempt],
                sleeps = slept\<rparr>
           | JsonOther \<Rightarrow>
               \<lparr>page = None, raised = None, requests = tried @ [attempt], sleeps = slept\<rparr>)
      | Raised e \<Rightarrow>
          if is_RequestException e then
            (if attempt < MAX_RETRIES - 1
             then fetch_attempts http later (tried @ [attempt]) (slept @ [RETRY_DELAY])
             else \<lparr>page = None, raised = None, requests = tried @ [attempt], sleeps = slept\<rparr>)
          else if is_JSONDecodeError e then
            \<lparr>page = None, raised = None, requests = tried @ [attempt], sleeps = slept\<rparr>
          else
            \<lparr>page = None, raised = Some OtherError, requests = tried @ [attempt],
             sleeps = slept\<rparr>)"

text \<open>\<^verbatim>\<open>for attempt in range(MAX_RETRIES)\<close>\<close>

definition fetch_batch :: "(nat \<Rightarrow> 'f http_outcome) \<Rightarrow> 'f fetched" where
  "fetch_batch http = fetch_attempts http [0..<MAX_RETRIES] [] []"

section \<open>Full harvest (SBIRInitialDownloader.download_all_awards)\<close>

text \<open>
  The storage operations of the two controllers, to say which of them meets a storage
  fault. Those of the harvest loop carry the offset of their iteration.
\<close>

datatype storage_op =
    OpOpen
  | OpCount
  | OpInsert nat
  | OpCheckpointOffset nat
  | OpCheckpointTime nat
  | OpFinalCompleted
  | OpFinalTotal
  | OpFinalInterrupted
  | OpLastCheck
  | OpContracts
  | OpUpsert
  | OpExport
  | OpMetaCheck
  | OpMetaNew

text \<open>
  The surroundings of a harvest. Within one run every fetch has an offset of its own
  (the offset only grows), so the surroundings are indexed by offset: \<open>http_at o i\<close> is
  the outcome of attempt \<open>i\<close> of the fetch at offset \<open>o\<close>; \<open>signal_at o\<close> says that
  SIGINT or SIGTERM arrives during the iteration that fetches at \<open>o\<close>; \<open>faults\<close> says
  which storage operations fail; \<open>sql_time o i\<close> is \<^verbatim>\<open>CURRENT_TIMESTAMP\<close> at statement
  \<open>i\<close> of the upsert at \<open>o\<close>; \<open>iso_now o\<close> and \<open>iso_end\<close> are
  \<^verbatim>\<open>datetime.now().isoformat()\<close> at the checkpoint of \<open>o\<close> and after the loop.
\<close>

record 'f environment =
  http_at :: "nat \<Rightarrow> nat \<Rightarrow> 'f http_outcome"
  signal_at :: "nat \<Rightarrow> bool"
  faults :: "storage_op \<Rightarrow> bool"
  sql_time :: "nat \<Rightarrow> nat \<Rightarrow> nat"
  iso_now :: "nat \<Rightarrow> string"
  iso_end :: string

text \<open>
  The downloader and its database during a run; \<open>fetch_offsets\<close> records the offsets
  of the fetches issued so far.
\<close>

record 'f downloader =
  database_of :: "'f database"
  offset :: nat
  consecutive_empty_batches :: nat
  total_downloaded :: nat
  interrupted :: bool
  fetch_offsets :: "nat list"

text \<open>The downloader as \<^verbatim>\<open>__init__\<close> leaves it, before a database that already exists.\<close>

definition new_downloader :: "'f database \<Rightarrow> 'f downloader" where
  "new_downloader d =
     \<lparr>database_of = d, offset = 0, consecutive_empty_batches = 0, total_downloaded = 0,
      interrupted = False, fetch_offsets = []\<rparr>"

text \<open>
  How a run ends. \<open>download_all_awards\<close> returns True for \<open>Completed\<close> and False for
  the others: the loop left on the interrupt flag, a failed fetch, an exception of the
  upsert or of a checkpoint, an exception that reaches the outer handler (one that
  leaves \<open>fetch_batch\<close>, or one of a storage operation outside the inner \<^verbatim>\<open>try\<close>).
\<close>

datatype outcome = Completed | Interrupted | FetchFailed | DatabaseError | FatalError

datatype 'f step = Continue "'f downloader" | Break "'f downloader" | Return outcome "'f downloader"

text \<open>The checkpoint at the end of an iteration (progress logging changes no state).\<close>

definition checkpoint :: "'f environment \<Rightarrow> 'f downloader \<Rightarrow> 'f step" where
  "checkpoint E st =
     (if offset st mod (CHECKPOINT_INTERVAL * BATCH_SIZE) = 0 then
        (case set_metadata (faults E (OpCheckpointOffset (offset st))) ''last_download_offset''
                (str_int (int (offset st))) (database_of st) of
           Inl e \<Rightarrow> Return DatabaseError st
         | Inr d1 \<Rightarrow>
             (case set_metadata (faults E (OpCheckpointTime (offset st))) ''last_download_time''
                     (iso_now E (offset st)) d1 of
                Inl e \<Rightarrow> Return DatabaseError (st\<lparr>database_of := d1\<rparr>)
              | Inr d2 \<Rightarrow> Continue (st\<lparr>database_of := d2\<rparr>)))
      else Continue st)"

text \<open>
  One iteration of \<^verbatim>\<open>while not self.interrupted\<close>, entered with the flag unset. The
  call of \<open>fetch_batch\<close> is outside the inner \<^verbatim>\<open>try\<close>: an exception that leaves it
  reaches the outer handler.
\<close>

definition iteration :: "'f builtins \<Rightarrow> 'f environment \<Rightarrow> 'f downloader \<Rightarrow> 'f step" where
  "iteration B E st =
     (let st1 = st\<lparr>fetch_offsets := fetch_offsets st @ [offset st],
                   interrupted := interrupted st \<or> signal_at E (offset st)\<rparr>
      in case page (fetch_batch (http_at E (offset st))) of
           None \<Rightarrow>
             (case raised (fetch_batch (http_at E (offset st))) of
                Some e \<Rightarrow> Return FatalError st1
              | None \<Rightarrow> Return FetchFailed st1)
         | Some awards \<Rightarrow>
             if length awards = 0 then
               (let st2 = st1\<lparr>consecutive_empty_batches := consecutive_empty_batches st1 + 1\<rparr>
                in if consecutive_empty_batches st2 \<ge> 3 then Break st2
                   else Continue (st2\<lparr>offset := offset st2 + BATCH_SIZE\<rparr>))
             else
               (let st2 = st1\<lparr>consecutive_empty_batches := 0\<rparr>;
                    valid_awards = validate_batch B awards
                in if valid_awards = [] then Continue (st2\<lparr>offset := offset st2 + length awards\<rparr>)
                   else
                     (case insert_awards B (sql_time E (offset st)) (faults E (OpInsert (offset st)))
                             valid_awards (database_of st2) of
                        Inl e \<Rightarrow> Return DatabaseError st2
                      | Inr (inserted, d') \<Rightarrow>
                          checkpoint E
                            (st2\<lparr>database_of := d',
                                 total_downloaded := total_downloaded st2 + inserted,
                                 offset := offset st2 + length awards\<rparr>))))"

text \<open>After the loop: the final metadata and the value returned.\<close>

definition finish :: "'f environment \<Rightarrow> 'f downloader \<Rightarrow> outcome \<times> 'f downloader" where
  "finish E st =
     (case set_metadata (faults E OpFinalCompleted) ''initial_download_completed'' (iso_end E)
             (database_of st) of
        Inl e \<Rightarrow> (FatalError, st)
      | Inr d1 \<Rightarrow>
          (case set_metadata (faults E OpFinalTotal) ''total_records_downloaded''
                  (str_int (int (total_downloaded st))) d1 of
             Inl e \<Rightarrow> (FatalError, st\<lparr>database_of := d1\<rparr>)
           | Inr d2 \<Rightarrow>
               if interrupted st then
                 (case set_metadata (faults E OpFinalInterrupted) ''download_interrupted'' ''true'' d2 of
                    Inl e \<Rightarrow> (FatalError, st\<lparr>database_of := d2\<rparr>)
                  | Inr d3 \<Rightarrow> (Interrupted, st\<lparr>database_of := d3\<rparr>))
               else
                 (case set_metadata (faults E OpFinalInterrupted) ''download_interrupted'' ''false'' d2 of
                    Inl e \<Rightarrow> (FatalError, st\<lparr>database_of := d2\<rparr>)
                  | Inr d3 \<Rightarrow> (Completed, st\<lparr>database_of := d3\<rparr>))))"

text \<open>
  The loop. It need not end (a source can serve pages for ever), so it runs on fuel, one
  unit per iteration: \<open>None\<close> says that the fuel ran out before the run ended.
\<close>

fun download_loop ::
  "'f builtins \<Rightarrow> 'f environment \<Rightarrow> nat \<Rightarrow> 'f downloader \<Rightarrow> (outcome \<times> 'f downloader) option" where
  "download_loop B E 0 st = (if interrupted st then Some (finish E st) else None)"
| "download_loop B E (Suc fuel) st =
     (if interrupted st then Some (finish E st)
      else
        (case iteration B E st of
           Continue st' \<Rightarrow> download_loop B E fuel st'
         | Break st' \<Rightarrow> Some (finish E st')
         | Return oc st' \<Rightarrow> Some (oc, st')))"

text \<open>
  \<open>download_all_awards\<close>: open the database (connect, create the tables), take the
  stored count as the starting offset when resuming, run the loop.
\<close>

definition download_all_awards ::
  "'f builtins \<Rightarrow> 'f environment \<Rightarrow> bool \<Rightarrow> nat \<Rightarrow> 'f downloader
     \<Rightarrow> (outcome \<times> 'f downloader) option" where
  "download_all_awards B E resume fuel st =
     (if faults E OpOpen then Some (FatalError, st)
      else if resume then
        (case get_record_count (faults E OpCount) (database_of st) of
           Inl e \<Rightarrow> Some (FatalError, st)
         | Inr existing_count \<Rightarrow>
             if existing_count > 0
             then download_loop B E fuel
                    (st\<lparr>offset := existing_count, consecutive_empty_batches := 0,
                        total_downloaded := existing_count\<rparr>)
             else download_loop B E fuel (st\<lparr>offset := 0, consecutive_empty_batches := 0\<rparr>))
      else download_loop B E fuel (st\<lparr>offset := 0, consecutive_empty_batches := 0\<rparr>))"

section \<open>Incremental sync (SBIRUpdateChecker)\<close>

text \<open>
  The surroundings of an update check. Times are microseconds; \<open>now\<close> is
  \<^verbatim>\<open>datetime.now()\<close> at the gate and \<open>now_metadata\<close> when the metadata is written;
  \<open>fromisoformat\<close> (\<open>None\<close> when it raises) and \<open>isoformat\<close> are those of \<^verbatim>\<open>datetime\<close>;
  \<open>recent_awards\<close> is what \<open>fetch_recent_awards\<close>, the scan of the look-back window,
  returns; \<open>sync_fault\<close> says which storage operations fail (an operation includes
  the opening of its connection); \<open>sync_time i\<close> is \<^verbatim>\<open>CURRENT_TIMESTAMP\<close> at statement
  \<open>i\<close> of the upsert.
\<close>

record 'f sync_environment =
  now :: int
  now_metadata :: int
  fromisoformat :: "string \<Rightarrow> int option"
  isoformat :: "int \<Rightarrow> string"
  recent_awards :: "'f award list"
  sync_fault :: "storage_op \<Rightarrow> bool"
  sync_time :: "nat \<Rightarrow> nat"

definition microseconds_per_day :: int where
  "microseconds_per_day = 86400000000"

definition get_last_update_date :: "'f sync_environment \<Rightarrow> 'f database \<Rightarrow> int option" where
  "get_last_update_date E d =
     (case get_metadata (sync_fault E OpLastCheck) ''last_update_check'' d of
        Inl e \<Rightarrow> None
      | Inr None \<Rightarrow> None
      | Inr (Some last_update_str) \<Rightarrow>
          if last_update_str \<noteq> [] then fromisoformat E last_update_str else None)"

text \<open>\<^verbatim>\<open>(datetime.now() - last_update).days\<close> is the floor of the difference in days.\<close>

definition should_check_for_updates :: "'f sync_environment \<Rightarrow> 'f database \<Rightarrow> bool" where
  "should_check_for_updates E d =
     (case get_last_update_date E d of
        None \<Rightarrow> True
      | Some last_update \<Rightarrow>
          (let days_since_update = (now E - last_update) div microseconds_per_day
           in days_since_update \<ge> UPDATE_CHECK_DAYS))"

text \<open>
  \<^verbatim>\<open>SELECT DISTINCT contract FROM awards WHERE contract IS NOT NULL\<close>, as a set; the
  column is TEXT, its values are strings. Any exception is logged and leaves the set
  empty.
\<close>

definition get_existing_contracts :: "'f sync_environment \<Rightarrow> 'f database \<Rightarrow> string set" where
  "get_existing_contracts E d =
     (if sync_fault E OpContracts then {}
      else set (List.map_filter
                  (\<lambda>r. case cell (cells r) ''contract'' of SqlText s \<Rightarrow> Some s | _ \<Rightarrow> None)
                  (awards_table d)))"

text \<open>
  \<^verbatim>\<open>contract not in existing_contracts\<close> for a set of strings: a list or a dictionary
  is unhashable (TypeError); a number or a bool equals no string.
\<close>

fun not_in_contracts :: "'f pyval \<Rightarrow> string set \<Rightarrow> exn + bool" where
  "not_in_contracts (PStr s) existing_contracts = Inr (s \<notin> existing_contracts)"
| "not_in_contracts (PList xs) existing_contracts = Inl TypeError"
| "not_in_contracts (PDict kvs) existing_contracts = Inl TypeError"
| "not_in_contracts v existing_contracts = Inr True"

fun identify_loop ::
  "'f builtins \<Rightarrow> 'f award list \<Rightarrow> string set \<Rightarrow> 'f award list \<Rightarrow> exn + 'f award list" where
  "identify_loop B [] existing_contracts new_awards = Inr new_awards"
| "identify_loop B (award # rest) existing_contracts new_awards =
     (let contract = dict_get award ''contract'' in
      if py_truthy B contract then
        (case not_in_contracts contract existing_contracts of
           Inl e \<Rightarrow> Inl e
         | Inr absent \<Rightarrow>
             if absent then identify_loop B rest existing_contracts (new_awards @ [award])
             else identify_loop B rest existing_contracts new_awards)
      else identify_loop B rest existing_contracts new_awards)"

definition identify_new_awards ::
  "'f builtins \<Rightarrow> 'f award list \<Rightarrow> string set \<Rightarrow> exn + 'f award list" where
  "identify_new_awards B recent existing_contracts = identify_loop B recent existing_contracts []"

text \<open>\<open>update_metadata\<close>: an exception of either write is logged and swallowed.\<close>

definition update_metadata :: "'f sync_environment \<Rightarrow> nat \<Rightarrow> 'f database \<Rightarrow> 'f database" where
  "update_metadata E found d =
     (case set_metadata (sync_fault E OpMetaCheck) ''last_update_check''
             (isoformat E (now_metadata E)) d of
        Inl e \<Rightarrow> d
      | Inr d1 \<Rightarrow>
          (case set_metadata (sync_fault E OpMetaNew) ''last_update_new_records''
                  (str_int (int found)) d1 of
             Inl e \<Rightarrow> d1
           | Inr d2 \<Rightarrow> d2))"

text \<open>
  What \<open>check_for_updates\<close> does on a fresh checker (\<open>new_records_found\<close> is 0): the
  value returned, the database afterwards, the checker's \<open>new_records_found\<close>, whether
  the scan of recent awards ran, and the batch handed to \<open>insert_awards\<close>. The CSV export
  is a file outside the model; only its failure is kept.
\<close>

record 'f sync_result =
  succeeded :: bool
  sync_db :: "'f database"
  new_records_found :: nat
  scanned :: bool
  upsert_batch :: "'f award list"

definition check_for_updates ::
  "'f builtins \<Rightarrow> 'f sync_environment \<Rightarrow> bool \<Rightarrow> 'f database \<Rightarrow> 'f sync_result" where
  "check_for_updates B E force d =
     (if \<not> force \<and> \<not> should_check_for_updates E d then
        \<lparr>succeeded = True, sync_db = d, new_records_found = 0, scanned = False, upsert_batch = []\<rparr>
      else
        (let existing_contracts = get_existing_contracts E d;
             recent = recent_awards E
         in if recent = [] then
              \<lparr>succeeded = True, sync_db = update_metadata E 0 d, new_records_found = 0,
               scanned = True, upsert_batch = []\<rparr>
            else
              (case identify_new_awards B recent existing_contracts of
                 Inl e \<Rightarrow>
                   \<lparr>succeeded = False, sync_db = d, new_records_found = 0, scanned = True,
                    upsert_batch = []\<rparr>
               | Inr new_awards \<Rightarrow>
                   if new_awards = [] then
                     \<lparr>succeeded = True, sync_db = update_metadata E 0 d, new_records_found = 0,
                      scanned = True, upsert_batch = []\<rparr>
                   else
                     (case insert_awards B (sync_time E) (sync_fault E OpUpsert) new_awards d of
                        Inl e \<Rightarrow>
                          \<lparr>succeeded = False, sync_db = d, new_records_found = 0, scanned = True,
                           upsert_batch = new_awards\<rparr>
                      | Inr (inserted, d') \<Rightarrow>
                          if inserted > 0 \<and> sync_fault E OpExport then
                            \<lparr>succeeded = False, sync_db = d', new_records_found = inserted,
                             scanned = True, upsert_batch = new_awards\<rparr>
                          else
                            \<lparr>succeeded = True, sync_db = update_metadata E inserted d',
                             new_records_found = inserted, scanned = True,
                             upsert_batch = new_awards\<rparr>))))"

section \<open>The sync in terms of stored contracts\<close>

text \<open>The contracts the table holds, and the test the sync applies to a fetched award.\<close>

definition stored_contracts :: "'f database \<Rightarrow> string set" where
  "stored_contracts d =
     set (List.map_filter
            (\<lambda>r. case cell (cells r) ''contract'' of SqlText s \<Rightarrow> Some s | _ \<Rightarrow> None)
            (awards_table d))"

definition new_by_contract :: "'f builtins \<Rightarrow> string set \<Rightarrow> 'f award \<Rightarrow> bool" where
  "new_by_contract B existing award =
     (py_truthy B (dict_get award ''contract'')
      \<and> (case dict_get award ''contract'' of PStr s \<Rightarrow> s \<notin> existing | _ \<Rightarrow> True))"

definition hashable :: "'f pyval \<Rightarrow> bool" where
  "hashable v = (case v of PList xs \<Rightarrow> False | PDict kvs \<Rightarrow> False | _ \<Rightarrow> True)"

text \<open>
  The membership test is reached only for a truthy contract: an award passes it without
  a TypeError when its contract is falsy or hashable.
\<close>

definition hashable_contract :: "'f builtins \<Rightarrow> 'f award \<Rightarrow> bool" where
  "hashable_contract B award =
     (py_truthy B (dict_get award ''contract'') \<longrightarrow> hashable (dict_get award ''contract''))"

section \<open>What the table holds for an award\<close>

text \<open>
  The value \<open>process_award_for_db\<close> leaves in \<open>award_amount\<close> and in an integer field,
  the cell SQLite stores for a bound value, and the identity of an award as the table
  stores it (the cells of its three identity columns).
\<close>

definition coerced_amount :: "'f builtins \<Rightarrow> 'f pyval \<Rightarrow> 'f pyval" where
  "coerced_amount B v =
     (if py_truthy B v then
        (case float_of_str B (replace_commas (py_str B v)) of
           Some f \<Rightarrow> PFloat f
         | None \<Rightarrow> PNone)
      else v)"

definition coerced_int :: "'f builtins \<Rightarrow> 'f pyval \<Rightarrow> 'f pyval" where
  "coerced_int B v =
     (if v = PNone then PNone
      else (case py_int B v of Inr k \<Rightarrow> PInt k | Inl e \<Rightarrow> PNone))"

definition stored_cell :: "'f builtins \<Rightarrow> string \<Rightarrow> 'f pyval option \<Rightarrow> 'f sqlval" where
  "stored_cell B c vo =
     (case vo of
        None \<Rightarrow> SqlNull
      | Some v \<Rightarrow>
          (case bind_value B v of
             Inl e \<Rightarrow> SqlNull
           | Inr x \<Rightarrow> apply_affinity B (column_affinity c) x))"

definition award_identity :: "'f builtins \<Rightarrow> 'f award \<Rightarrow> 'f sqlval list" where
  "award_identity B award = map (\<lambda>c. stored_cell B c (award c)) identity_columns"

definition rows_with_identity :: "'f sqlval list \<Rightarrow> 'f database \<Rightarrow> 'f award_row list" where
  "rows_with_identity k db = filter (\<lambda>r. identity_of (cells r) = k) (awards_table db)"


section \<open>The harvest against a steady source\<close>

text \<open>
  An award is storable when \<open>process_award_for_db\<close> and the binding of its columns raise
  nothing. \<open>row_identities\<close> are the identities of the stored rows, in rowid order. A
  steady source serves the list \<open>src\<close> by offset on the first attempt of every fetch,
  with no signal and no storage fault, and its awards are all valid, storable and of
  pairwise distinct identities. The invariant of the loop on such a source: the flag and
  the streak are clear and the table holds the first \<open>offset\<close> awards of the source.
  \<open>step_state\<close> is the downloader after an iteration, however it ends.
\<close>

definition storable :: "'f builtins \<Rightarrow> 'f award \<Rightarrow> bool" where
  "storable B award =
     (case process_award_for_db B award of
        Inl e \<Rightarrow> False
      | Inr p \<Rightarrow> (case bind_columns B p award_columns of Inl e \<Rightarrow> False | Inr m \<Rightarrow> True))"

definition row_identities :: "'f database \<Rightarrow> 'f sqlval list list" where
  "row_identities d = map (\<lambda>r. identity_of (cells r)) (awards_table d)"

definition steady_source :: "'f builtins \<Rightarrow> 'f environment \<Rightarrow> 'f award list \<Rightarrow> bool" where
  "steady_source B E src =
     ((\<forall>k. http_at E k 0 = Response (JsonList (take BATCH_SIZE (drop k src))))
      \<and> (\<forall>k. \<not> signal_at E k)
      \<and> (\<forall>op. \<not> faults E op)
      \<and> list_all (satisfies_contract B) src
      \<and> list_all (storable B) src
      \<and> distinct (map (award_identity B) src))"

definition harvest_invariant :: "'f builtins \<Rightarrow> 'f award list \<Rightarrow> 'f downloader \<Rightarrow> bool" where
  "harvest_invariant B src st =
     (\<not> interrupted st \<and> consecutive_empty_batches st = 0 \<and> offset st \<le> length src
      \<and> row_identities (database_of st) = map (award_identity B) (take (offset st) src))"

definition step_state :: "'f step \<Rightarrow> 'f downloader" where
  "step_state s = (case s of Continue st \<Rightarrow> st | Break st \<Rightarrow> st | Return oc st \<Rightarrow> st)"

section \<open>Example data\<close>

text \<open>
  An interpretation of the builtins for the examples, with a float written as a
  rational. It gives Python's results on the literals the examples use and takes every
  other string to be unparsable; a rational is no NaN and the strings of the examples
  are ASCII; the examples hold no float, list or dictionary, so the entries for those
  are never called.
\<close>

definition example_builtins :: "rat builtins" where
  "example_builtins =
     \<lparr>float_of_str = map_of [(''1234.50'', 1234.5), (''100000.00'', 100000)],
      int_of_str = map_of [(''2025'', 2025), (''1200'', 1200)],
      int_of_float = (\<lambda>f. Inr (if 0 \<le> f then \<lfloor>f\<rfloor> else \<lceil>f\<rceil>)),
      float_is_zero = (\<lambda>f. f = 0),
      float_is_nan = (\<lambda>f. False),
      utf8_encodable = (\<lambda>s. True),
      repr_other = (\<lambda>v. []),
      json_dumps = (\<lambda>a. []),
      text_of_real = (\<lambda>f. []),
      real_of_int = of_int\<rparr>"

text \<open>The sample award of \<^verbatim>\<open>tests/test_system.py\<close>.\<close>

definition sample_award :: "rat award" where
  "sample_award = map_of
     [(''firm'', PStr ''Test Company''),
      (''award_title'', PStr ''Test Award''),
      (''agency'', PStr ''NSF''),
      (''branch'', PNone),
      (''phase'', PStr ''Phase I''),
      (''program'', PStr ''SBIR''),
      (''agency_tracking_number'', PStr ''TEST123''),
      (''contract'', PStr ''TEST123''),
      (''proposal_award_date'', PStr ''2025-01-01''),
      (''contract_end_date'', PStr ''2026-01-01''),
      (''solicitation_number'', PStr ''TEST-2025''),
      (''solicitation_year'', PInt 2025),
      (''topic_code'', PStr ''T''),
      (''award_year'', PInt 2025),
      (''award_amount'', PStr ''100000.00''),
      (''duns'', PStr ''123456789''),
      (''uei'', PStr ''TESTCOMPANY123''),
      (''hubzone_owned'', PStr ''N''),
      (''socially_economically_disadvantaged'', PStr ''N''),
      (''women_owned'', PStr ''N''),
      (''number_employees'', PInt 10),
      (''company_url'', PStr ''https://test.com''),
      (''address1'', PStr ''123 Test St''),
      (''address2'', PStr []),
      (''city'', PStr ''Test City''),
      (''state'', PStr ''TS''),
      (''zip'', PStr ''12345''),
      (''poc_name'', PStr ''Test Person''),
      (''poc_title'', PStr ''CEO''),
      (''poc_phone'', PStr ''555-1234''),
      (''poc_email'', PStr ''test@test.com''),
      (''pi_name'', PStr ''Test PI''),
      (''pi_title'', PStr ''Principal Investigator''),
      (''pi_phone'', PStr ''555-1234''),
      (''pi_email'', PStr ''pi@test.com''),
      (''ri_name'', PNone),
      (''ri_poc_name'', PStr []),
      (''ri_poc_phone'', PNone),
      (''research_area_keywords'', PNone),
      (''abstract'', PStr ''This is a test award for system validation.''),
      (''award_link'', PInt 12345)]"

definition empty_db :: "rat database" where
  "empty_db = \<lparr>awards_table = [], awards_seq = 0, scraper_metadata = Map.empty\<rparr>"

text \<open>A database that holds one award and the time of a last update check.\<close>

definition stored_db :: "rat database" where
  "stored_db =
     \<lparr>awards_table =
        [\<lparr>row_id = 1,
          cells = [''contract'' \<mapsto> SqlText ''TEST123'', ''agency'' \<mapsto> SqlText ''NSF'',
                   ''agency_tracking_number'' \<mapsto> SqlText ''TEST123'',
                   ''proposal_award_date'' \<mapsto> SqlText ''2025-01-01''],
          created_at = 0, updated_at = 0\<rparr>],
      awards_seq = 1,
      scraper_metadata = [''last_update_check'' \<mapsto> ''2025-01-05T02:00:00'']\<rparr>"

text \<open>\<^verbatim>\<open>CURRENT_TIMESTAMP\<close> of the examples: statement \<open>i\<close> runs at second \<open>100 + i\<close>.\<close>

definition example_clock :: "nat \<Rightarrow> nat" where
  "example_clock i = 100 + i"

text \<open>Variants of the sample award used by the examples.\<close>

definition null_tracking_award :: "rat award" where
  "null_tracking_award = sample_award(''agency_tracking_number'' \<mapsto> PNone)"

definition comma_amount_award :: "rat award" where
  "comma_amount_award = sample_award(''award_amount'' \<mapsto> PStr ''1,234.50'')"

definition first_award :: "rat award" where
  "first_award = sample_award(''contract'' \<mapsto> PStr ''FIRST'')"

definition last_award :: "rat award" where
  "last_award = sample_award(''contract'' \<mapsto> PStr ''LAST'')"

definition bad_amount_award :: "rat award" where
  "bad_amount_award =
     sample_award(''award_amount'' \<mapsto> PStr ''not-a-number'', ''award_year'' \<mapsto> PStr ''n/a'')"

definition blank_amount_award :: "rat award" where
  "blank_amount_award = sample_award(''award_amount'' \<mapsto> PStr [])"

definition comma_employees_award :: "rat award" where
  "comma_employees_award = sample_award(''number_employees'' \<mapsto> PStr ''1,200'')"



text \<open>
  A fetch whose every attempt gets a response of status 200 with a body that is not
  JSON: \<^verbatim>\<open>response.json()\<close> raises \<^verbatim>\<open>requests.exceptions.JSONDecodeError\<close> each time.
\<close>

definition undecodable_body :: "nat \<Rightarrow> rat http_outcome" where
  "undecodable_body i = Raised RequestsJSONDecodeError"

text \<open>
  The surroundings of the example checks: the stored last check is the instant 0, the
  check runs two days and one hour later, and no storage operation fails.
\<close>

definition example_sync :: "rat award list \<Rightarrow> rat sync_environment" where
  "example_sync recent =
     \<lparr>now = 176400000000,
      now_metadata = 176405000000,
      fromisoformat = map_of [(''2025-01-05T02:00:00'', 0)],
      isoformat = (\<lambda>t. ''2025-01-07T03:00:05''),
      recent_awards = recent,
      sync_fault = (\<lambda>op. False),
      sync_time = example_clock\<rparr>"

text \<open>The same surroundings when the read of the last check meets a storage fault.\<close>

definition unreadable_sync :: "rat award list \<Rightarrow> rat sync_environment" where
  "unreadable_sync recent = (example_sync recent)\<lparr>sync_fault := (\<lambda>op. op = OpLastCheck)\<rparr>"



definition award_c :: "rat award" where
  "award_c = sample_award(''contract'' \<mapsto> PStr ''C-3'')"



text \<open>
  A source that serves a fixed list of awards by offset, with no signal and no storage
  fault; a source whose only award is at offset 2000, behind empty pages.
\<close>

definition source_env :: "rat award list \<Rightarrow> rat environment" where
  "source_env src =
     \<lparr>http_at = (\<lambda>k i. Response (JsonList (take BATCH_SIZE (drop k src)))),
      signal_at = (\<lambda>k. False),
      faults = (\<lambda>op. False),
      sql_time = (\<lambda>k i. k + i),
      iso_now = (\<lambda>k. ''2025-01-06T00:00:00''),
      iso_end = ''2025-01-06T01:00:00''\<rparr>"

definition sparse_env :: "rat environment" where
  "sparse_env =
     \<lparr>http_at = (\<lambda>k i. Response (JsonList (if k = 2000 then [sample_award] else []))),
      signal_at = (\<lambda>k. False),
      faults = (\<lambda>op. False),
      sql_time = (\<lambda>k i. k + i),
      iso_now = (\<lambda>k. ''2025-01-06T00:00:00''),
      iso_end = ''2025-01-06T01:00:00''\<rparr>"

text \<open>The source without awards, with a signal during the fetch at offset 5000.\<close>

definition signalled_env :: "rat environment" where
  "signalled_env =
     \<lparr>http_at = (\<lambda>k i. Response (JsonList [])),
      signal_at = (\<lambda>k. k = 5000),
      faults = (\<lambda>op. False),
      sql_time = (\<lambda>k i. k + i),
      iso_now = (\<lambda>k. ''2025-01-06T00:00:00''),
      iso_end = ''2025-01-06T01:00:00''\<rparr>"

definition no_firm_award :: "rat award" where
  "no_firm_award = sample_award(''firm'' \<mapsto> PStr [], ''contract'' \<mapsto> PStr ''NOFIRM'')"

definition second_award :: "rat award" where
  "second_award = sample_award(''contract'' \<mapsto> PStr ''SECOND'')"

section \<open>Validation: the accepted payloads\<close>

lemma missing_fields_empty: "missing_fields award = [] \<longleftrightarrow> has_all_required award"
  by (simp add: missing_fields_def has_all_required_def filter_empty_conv list_all_iff)

lemma validate_loop_filter:
  "validate_loop B awards acc = acc @ filter (satisfies_contract B) awards"
proof (induction awards arbitrary: acc)
  case Nil
  show ?case by simp
next
  case (Cons award rest)
  show ?case
    by (simp add: Cons.IH missing_fields_empty satisfies_contract_def field_empty_def)
qed

text \<open>
  C9. Validation keeps exactly the payloads that have every required field and a
  non-empty firm and title; each accepted payload is the payload itself, unmodified, and
  the accepted payloads stay in their order: the result is the input list filtered by
  the contract.
\<close>

theorem validate_batch_filters_contract:
  "validate_batch B awards = filter (satisfies_contract B) awards"
  by (simp add: validate_batch_def validate_loop_filter)

section \<open>Normalisation and binding: what reaches the table\<close>

lemma convert_award_amount_result:
  assumes "convert_award_amount B a = Inr p"
  shows "p = (case a ''award_amount'' of None \<Rightarrow> a
              | Some v \<Rightarrow> a(''award_amount'' \<mapsto> coerced_amount B v))"
  using assms
  by (auto simp: convert_award_amount_def coerced_amount_def py_float_def caught_def
           split: option.splits if_splits sum.splits)

lemma coerced_int_idem: "coerced_int B (coerced_int B v) = coerced_int B v"
  by (auto simp: coerced_int_def split: sum.splits)

lemma convert_int_field_result:
  assumes "convert_int_field B field p = Inr p'"
  shows "p' c = (if c = field then map_option (coerced_int B) (p c) else p c)"
  using assms
  by (auto simp: convert_int_field_def coerced_int_def caught_def
           split: option.splits if_splits sum.splits)

lemma convert_int_fields_result:
  assumes "convert_int_fields B fs p = Inr p'"
  shows "p' c = (if c \<in> set fs then map_option (coerced_int B) (p c) else p c)"
  using assms
proof (induction fs arbitrary: p)
  case Nil
  then show ?case by simp
next
  case (Cons field rest)
  from Cons.prems obtain p1 where
    s1: "convert_int_field B field p = Inr p1" and s2: "convert_int_fields B rest p1 = Inr p'"
    by (auto split: sum.splits)
  have a: "p1 c = (if c = field then map_option (coerced_int B) (p c) else p c)"
    using convert_int_field_result [OF s1] .
  have b: "p' c = (if c \<in> set rest then map_option (coerced_int B) (p1 c) else p1 c)"
    using Cons.IH [OF s2] .
  show ?case
    using a b by (cases "p c") (auto simp: coerced_int_idem)
qed

lemma process_award_for_db_result:
  assumes "process_award_for_db B a = Inr p"
  shows "p c =
     (if c \<in> set int_fields then map_option (coerced_int B) (a c)
      else if c = ''raw_data'' then Some (PStr (json_dumps B a))
      else if c = ''award_amount'' then map_option (coerced_amount B) (a c)
      else a c)"
proof -
  from assms obtain p0 where
    s1: "convert_award_amount B a = Inr p0" and
    s2: "convert_int_fields B int_fields (p0(''raw_data'' \<mapsto> PStr (json_dumps B a))) = Inr p"
    by (auto simp: process_award_for_db_def split: sum.splits)
  have a: "p0 = (case a ''award_amount'' of None \<Rightarrow> a
              | Some v \<Rightarrow> a(''award_amount'' \<mapsto> coerced_amount B v))"
    using convert_award_amount_result [OF s1] .
  have ni: "''raw_data'' \<notin> set int_fields" "''award_amount'' \<notin> set int_fields"
    by (simp_all add: int_fields_def)
  show ?thesis
    using convert_int_fields_result [OF s2, of c] a ni
    by (auto split: option.splits)
qed

lemma bind_columns_cell:
  assumes "bind_columns B p cs = Inr m"
  shows "m c = (if c \<in> set cs then Some (stored_cell B c (p c)) else None)"
  using assms
proof (induction cs arbitrary: m)
  case Nil
  then show ?case by auto
next
  case (Cons c0 rest)
  then show ?case
    by (auto simp: stored_cell_def split: option.splits sum.splits)
qed

lemma bind_columns_bound:
  assumes "bind_columns B p cs = Inr m" and "c \<in> set cs"
  shows "\<exists>v x. p c = Some v \<and> bind_value B v = Inr x"
  using assms
proof (induction cs arbitrary: m)
  case Nil
  then show ?case by auto
next
  case (Cons c0 rest)
  then show ?case
    by (auto split: option.splits sum.splits)
qed


section \<open>Upsert by identity\<close>

lemma rows_with_identity_replaced:
  assumes "SqlNull \<notin> set (identity_of m)"
  shows "rows_with_identity (identity_of m) (insert_or_replace t m db) =
           [\<lparr>row_id = next_rowid db, cells = m, created_at = t, updated_at = t\<rparr>]"
  using assms
  by (simp add: rows_with_identity_def insert_or_replace_def violates_unique_def
        filter_empty_conv)

lemma rows_with_identity_other:
  assumes "identity_of m \<noteq> k"
  shows "rows_with_identity k (insert_or_replace t m db) = rows_with_identity k db"
proof -
  have "filter (\<lambda>r. identity_of (cells r) = k)
          (filter (\<lambda>r. \<not> violates_unique m r) (awards_table db)) =
        filter (\<lambda>r. identity_of (cells r) = k) (awards_table db)"
    using assms by (auto simp: violates_unique_def intro: filter_cong)
  then show ?thesis
    using assms by (simp add: rows_with_identity_def insert_or_replace_def)
qed

lemma executemany_append:
  "executemany B clk i (xs @ ys) db =
     (case executemany B clk i xs db of
        Inl e \<Rightarrow> Inl e
      | Inr db1 \<Rightarrow> executemany B clk (i + length xs) ys db1)"
  by (induction xs arbitrary: i db) (auto split: sum.splits)

lemma executemany_other_identities:
  assumes "executemany B clk i ps db = Inr db'"
    and "\<And>p m. p \<in> set ps \<Longrightarrow> bind_columns B p award_columns = Inr m \<Longrightarrow> identity_of m \<noteq> k"
  shows "rows_with_identity k db' = rows_with_identity k db"
  using assms
proof (induction ps arbitrary: i db)
  case Nil
  then show ?case by simp
next
  case (Cons p rest)
  from Cons.prems(1) obtain m where
    b: "bind_columns B p award_columns = Inr m" and
    r: "executemany B clk (Suc i) rest (insert_or_replace (clk i) m db) = Inr db'"
    by (auto split: sum.splits)
  have "identity_of m \<noteq> k"
    using Cons.prems(2) [of p m] b by simp
  then have "rows_with_identity k (insert_or_replace (clk i) m db) = rows_with_identity k db"
    by (rule rows_with_identity_other)
  moreover have "rows_with_identity k db' = rows_with_identity k (insert_or_replace (clk i) m db)"
  proof (rule Cons.IH [OF r])
    fix q m'
    assume "q \<in> set rest" and "bind_columns B q award_columns = Inr m'"
    then show "identity_of m' \<noteq> k"
      using Cons.prems(2) [of q m'] by simp
  qed
  ultimately show ?case by simp
qed

lemma executemany_keeps_single:
  assumes "executemany B clk i ps db = Inr db'"
    and "SqlNull \<notin> set k"
    and "length (rows_with_identity k db) = 1"
  shows "length (rows_with_identity k db') = 1"
  using assms
proof (induction ps arbitrary: i db)
  case Nil
  then show ?case by simp
next
  case (Cons p rest)
  from Cons.prems(1) obtain m where
    b: "bind_columns B p award_columns = Inr m" and
    r: "executemany B clk (Suc i) rest (insert_or_replace (clk i) m db) = Inr db'"
    by (auto split: sum.splits)
  have "length (rows_with_identity k (insert_or_replace (clk i) m db)) = 1"
  proof (cases "identity_of m = k")
    case True
    then show ?thesis
      using rows_with_identity_replaced [of m "clk i" db] Cons.prems(2) by simp
  next
    case False
    then show ?thesis
      using rows_with_identity_other [of m k "clk i" db] Cons.prems(3) by simp
  qed
  then show ?case
    using Cons.IH [OF r Cons.prems(2)] by simp
qed

lemma process_all_append:
  "process_all B (xs @ ys) =
     (case process_all B xs of
        Inl e \<Rightarrow> Inl e
      | Inr ps \<Rightarrow> (case process_all B ys of Inl e \<Rightarrow> Inl e | Inr qs \<Rightarrow> Inr (ps @ qs)))"
  by (induction xs) (auto split: sum.splits)

lemma process_all_length: "process_all B xs = Inr ps \<Longrightarrow> length ps = length xs"
  by (induction xs arbitrary: ps) (auto split: sum.splits)

lemma process_all_member:
  "process_all B xs = Inr ps \<Longrightarrow> p \<in> set ps \<Longrightarrow>
     \<exists>a \<in> set xs. process_award_for_db B a = Inr p"
  by (induction xs arbitrary: ps) (auto split: sum.splits)

lemma identity_columns_plain:
  assumes "c \<in> set identity_columns"
  shows "c \<in> set award_columns" "c \<notin> set int_fields" "c \<noteq> ''raw_data''"
    "c \<noteq> ''award_amount''"
  using assms by (auto simp: identity_columns_def award_columns_def int_fields_def)

lemma stored_identity:
  assumes p: "process_award_for_db B a = Inr p"
    and m: "bind_columns B p award_columns = Inr m"
  shows "identity_of m = award_identity B a"
proof -
  have "cell m c = stored_cell B c (a c)" if c: "c \<in> set identity_columns" for c
  proof -
    have "p c = a c"
      using process_award_for_db_result [OF p, of c] identity_columns_plain [OF c] by simp
    then show ?thesis
      using bind_columns_cell [OF m, of c] identity_columns_plain(1) [OF c]
      by (simp add: cell_def)
  qed
  then show ?thesis
    by (simp add: identity_of_def award_identity_def)
qed

text \<open>
  C1 (as amended). Whenever an upsert of a batch is accepted, an award \<open>R\<close> of the batch
  whose contract, agency and tracking number are all stored non-NULL has exactly one row
  with its identity afterwards, whatever the database held before and however often \<open>R\<close>
  occurs in the batch; when no later award of the batch has the same identity, that row
  is the one written by \<open>R\<close>'s own statement, so its \<open>updated_at\<close> is the time of that
  statement.
\<close>

theorem upsert_keeps_one_row_per_identity:
  assumes ins: "insert_awards B clk fault (pre @ R # post) db = Inr (n, db')"
    and nn: "SqlNull \<notin> set (award_identity B R)"
  shows "\<exists>r. rows_with_identity (award_identity B R) db' = [r]
           \<and> (award_identity B R \<notin> set (map (award_identity B) post)
                \<longrightarrow> updated_at r = clk (length pre))"
proof -
  let ?k = "award_identity B R"
  from ins obtain ps where
    pa: "process_all B (pre @ R # post) = Inr ps" and
    ex: "executemany B clk 0 ps db = Inr db'"
    by (auto simp: insert_awards_def split: sum.splits if_splits)
  from pa obtain ps1 pR ps2 where
    p1: "process_all B pre = Inr ps1" and
    pR: "process_award_for_db B R = Inr pR" and
    p2: "process_all B post = Inr ps2" and
    ps: "ps = ps1 @ pR # ps2"
    by (auto simp: process_all_append split: sum.splits)
  have len: "length ps1 = length pre"
    using p1 by (rule process_all_length)
  from ex obtain db1 m where
    e1: "executemany B clk 0 ps1 db = Inr db1" and
    b: "bind_columns B pR award_columns = Inr m" and
    e2: "executemany B clk (Suc (length pre)) ps2
           (insert_or_replace (clk (length pre)) m db1) = Inr db'"
    by (auto simp: ps executemany_append len split: sum.splits)
  let ?db2 = "insert_or_replace (clk (length pre)) m db1"
  let ?new = "\<lparr>row_id = next_rowid db1, cells = m, created_at = clk (length pre),
               updated_at = clk (length pre)\<rparr>"
  have km: "identity_of m = ?k"
    using pR b by (rule stored_identity)
  have one: "rows_with_identity ?k ?db2 = [?new]"
    using rows_with_identity_replaced [of m "clk (length pre)" db1] nn km by simp
  have "length (rows_with_identity ?k db') = 1"
    using executemany_keeps_single [OF e2 nn] one by simp
  then obtain r where r: "rows_with_identity ?k db' = [r]"
    by (cases "rows_with_identity ?k db'") auto
  have "updated_at r = clk (length pre)"
    if fresh: "?k \<notin> set (map (award_identity B) post)"
  proof -
    have "identity_of m' \<noteq> ?k"
      if "p \<in> set ps2" and "bind_columns B p award_columns = Inr m'" for p m'
    proof -
      from process_all_member [OF p2 that(1)] obtain a where
        a: "a \<in> set post" and pa': "process_award_for_db B a = Inr p" by blast
      have "identity_of m' = award_identity B a"
        using pa' that(2) by (rule stored_identity)
      moreover have "award_identity B a \<in> set (map (award_identity B) post)"
        using a by simp
      ultimately show ?thesis
        using fresh by metis
    qed
    then have "rows_with_identity ?k db' = rows_with_identity ?k ?db2"
      using executemany_other_identities [OF e2] by blast
    then show ?thesis
      using r one by simp
  qed
  then show ?thesis
    using r by blast
qed

theorem upsert_keeps_one_row_per_identity_witness:
  "\<exists>n db' r.
     insert_awards example_builtins example_clock False ([sample_award] @ sample_award # []) empty_db
       = Inr (n, db')
     \<and> SqlNull \<notin> set (award_identity example_builtins sample_award)
     \<and> rows_with_identity (award_identity example_builtins sample_award) db' = [r]
     \<and> updated_at r = example_clock 1"
proof -
  have "case insert_awards example_builtins example_clock False
               ([sample_award] @ sample_award # []) empty_db of
          Inr x \<Rightarrow> True | Inl e \<Rightarrow> False"
    by code_simp
  then obtain n db' where
    h: "insert_awards example_builtins example_clock False
          ([sample_award] @ sample_award # []) empty_db = Inr (n, db')"
    by (cases "insert_awards example_builtins example_clock False
          ([sample_award] @ sample_award # []) empty_db") auto
  have nn: "SqlNull \<notin> set (award_identity example_builtins sample_award)"
    by code_simp
  from upsert_keeps_one_row_per_identity [OF h nn] h nn show ?thesis
    by auto
qed

text \<open>
  The claim as stated fails for an award whose tracking number is null: the UNIQUE
  constraint does not hold NULLs equal, and upserting the award twice stores two rows
  with its identity.
\<close>

theorem null_identity_stored_twice:
  "(case insert_awards example_builtins example_clock False
           [null_tracking_award, null_tracking_award] empty_db of
      Inr (n, db') \<Rightarrow>
        length (rows_with_identity (award_identity example_builtins null_tracking_award) db')
    | Inl e \<Rightarrow> 0) = 2"
  by code_simp


section \<open>Stored amount and integer fields\<close>

lemma insert_awards_middle:
  assumes ins: "insert_awards B clk fault (pre @ award # post) db = Inr (n, db')"
  shows "\<exists>p m db1 ps2. process_award_for_db B award = Inr p
           \<and> bind_columns B p award_columns = Inr m
           \<and> process_all B post = Inr ps2
           \<and> executemany B clk (Suc (length pre)) ps2
                 (insert_or_replace (clk (length pre)) m db1) = Inr db'
           \<and> n = length pre + 1 + length post"
proof -
  from ins obtain ps where
    pa: "process_all B (pre @ award # post) = Inr ps" and
    ex: "executemany B clk 0 ps db = Inr db'" and
    n: "n = length ps"
    by (auto simp: insert_awards_def split: sum.splits if_splits)
  from pa obtain ps1 p ps2 where
    p1: "process_all B pre = Inr ps1" and
    p: "process_award_for_db B award = Inr p" and
    p2: "process_all B post = Inr ps2" and
    ps: "ps = ps1 @ p # ps2"
    by (auto simp: process_all_append split: sum.splits)
  have len: "length ps1 = length pre" "length ps2 = length post"
    using p1 p2 by (simp_all add: process_all_length)
  from ex obtain db1 m where
    b: "bind_columns B p award_columns = Inr m" and
    d: "executemany B clk (Suc (length pre)) ps2
          (insert_or_replace (clk (length pre)) m db1) = Inr db'"
    by (auto simp: ps executemany_append len split: sum.splits)
  show ?thesis
    using p b p2 d n ps len by auto
qed

lemma inserted_row:
  "\<lparr>row_id = next_rowid db, cells = m, created_at = t, updated_at = t\<rparr>
     \<in> set (awards_table (insert_or_replace t m db))"
  by (simp add: insert_or_replace_def)

lemma executemany_keeps_row:
  assumes "executemany B clk i ps db = Inr db'"
    and "r \<in> set (awards_table db)"
    and "\<And>p m. p \<in> set ps \<Longrightarrow> bind_columns B p award_columns = Inr m
           \<Longrightarrow> \<not> violates_unique m r"
  shows "r \<in> set (awards_table db')"
  using assms
proof (induction ps arbitrary: i db)
  case Nil
  then show ?case by simp
next
  case (Cons p rest)
  from Cons.prems(1) obtain m where
    b: "bind_columns B p award_columns = Inr m" and
    e: "executemany B clk (Suc i) rest (insert_or_replace (clk i) m db) = Inr db'"
    by (auto split: sum.splits)
  have "\<not> violates_unique m r"
    using Cons.prems(3) [of p m] b by simp
  then have "r \<in> set (awards_table (insert_or_replace (clk i) m db))"
    using Cons.prems(2) by (simp add: insert_or_replace_def)
  then show ?case
  proof (rule Cons.IH [OF e])
    fix q m'
    assume "q \<in> set rest" and "bind_columns B q award_columns = Inr m'"
    then show "\<not> violates_unique m' r"
      using Cons.prems(3) [of q m'] by simp
  qed
qed

lemma amount_column: "''award_amount'' \<in> set award_columns"
  "column_affinity ''award_amount'' = REAL" "''award_amount'' \<notin> set int_fields"
  by (simp_all add: award_columns_def column_affinity_def int_fields_def)

lemma int_field_column:
  assumes "field \<in> set int_fields"
  shows "field \<in> set award_columns" "column_affinity field = INTEGER"
  using assms by (auto simp: award_columns_def column_affinity_def int_fields_def)

lemma bound_amount:
  assumes p: "process_award_for_db B award = Inr p"
    and b: "bind_columns B p award_columns = Inr m"
  shows "(\<forall>v. award ''award_amount'' = Some v \<and> py_truthy B v \<longrightarrow>
            cell m ''award_amount'' =
              (case float_of_str B (replace_commas (py_str B v)) of
                 Some f \<Rightarrow> if float_is_nan B f then SqlNull else SqlReal f
               | None \<Rightarrow> SqlNull))
     \<and> (\<forall>v. award ''award_amount'' = Some v \<and> \<not> py_truthy B v \<longrightarrow>
            cell m ''award_amount'' = stored_cell B ''award_amount'' (Some v))"
proof -
  have am: "cell m ''award_amount'' =
              stored_cell B ''award_amount'' (map_option (coerced_amount B) (award ''award_amount''))"
    using bind_columns_cell [OF b, of "''award_amount''"]
      process_award_for_db_result [OF p, of "''award_amount''"] amount_column
    by (simp add: cell_def)
  have truthy: "cell m ''award_amount'' =
        (case float_of_str B (replace_commas (py_str B v)) of
           Some f \<Rightarrow> if float_is_nan B f then SqlNull else SqlReal f | None \<Rightarrow> SqlNull)"
    if "award ''award_amount'' = Some v" "py_truthy B v" for v
    using that am amount_column(2)
    by (simp add: stored_cell_def coerced_amount_def split: option.splits)
  have falsy: "cell m ''award_amount'' = stored_cell B ''award_amount'' (Some v)"
    if "award ''award_amount'' = Some v" "\<not> py_truthy B v" for v
    using that am by (simp add: coerced_amount_def)
  show ?thesis
    using truthy falsy by blast
qed

lemma bound_int_field:
  assumes p: "process_award_for_db B award = Inr p"
    and b: "bind_columns B p award_columns = Inr m"
    and f: "field \<in> set int_fields"
    and v: "award field = Some v" "v \<noteq> PNone"
  shows "cell m field = (case py_int B v of Inr k \<Rightarrow> SqlInt k | Inl e \<Rightarrow> SqlNull)"
proof -
  have pf: "p field = Some (coerced_int B v)"
    using process_award_for_db_result [OF p, of field] f v by simp
  have mc: "cell m field = stored_cell B field (Some (coerced_int B v))"
    using bind_columns_cell [OF b, of field] int_field_column(1) [OF f] pf
    by (simp add: cell_def)
  from bind_columns_bound [OF b int_field_column(1) [OF f]] pf
  obtain x where bx: "bind_value B (coerced_int B v) = Inr x" by auto
  show ?thesis
  proof (cases "py_int B v")
    case (Inl e)
    then show ?thesis
      using mc v by (simp add: coerced_int_def stored_cell_def)
  next
    case (Inr k)
    then have "coerced_int B v = PInt k"
      using v by (simp add: coerced_int_def)
    then show ?thesis
      using mc bx Inr int_field_column(2) [OF f]
      by (auto simp: stored_cell_def split: if_splits)
  qed
qed

text \<open>
  C10 (as amended). When the upsert of a batch is accepted, every award of the batch is
  counted in the result, and every award that no later award of the batch replaces (no
  later award has its identity, or its identity has a NULL, which conflicts with
  nothing) has a row in the table, written by its own statement, that holds: for an
  amount that is present and truthy, the float parsed from its string with the commas
  removed, or NULL when that does not parse or parses to a NaN; for a falsy amount
  (None, the empty string, zero) the value as it is bound, unparsed; for an integer
  field that is present and not None, the result of \<^verbatim>\<open>int()\<close> on the value as it is
  (no comma is removed), or NULL when \<^verbatim>\<open>int()\<close> raises ValueError or TypeError.
\<close>

theorem stored_amount_and_integer_fields:
  assumes ins: "insert_awards B clk fault (pre @ award # post) db = Inr (n, db')"
    and kept: "award_identity B award \<notin> set (map (award_identity B) post)
               \<or> SqlNull \<in> set (award_identity B award)"
  shows "n = length pre + 1 + length post
     \<and> (\<exists>r \<in> set (awards_table db').
           updated_at r = clk (length pre)
         \<and> identity_of (cells r) = award_identity B award
         \<and> (\<forall>v. award ''award_amount'' = Some v \<and> py_truthy B v \<longrightarrow>
                cell (cells r) ''award_amount'' =
                  (case float_of_str B (replace_commas (py_str B v)) of
                     Some f \<Rightarrow> if float_is_nan B f then SqlNull else SqlReal f
                   | None \<Rightarrow> SqlNull))
         \<and> (\<forall>v. award ''award_amount'' = Some v \<and> \<not> py_truthy B v \<longrightarrow>
                cell (cells r) ''award_amount'' = stored_cell B ''award_amount'' (Some v))
         \<and> (\<forall>field v. field \<in> set int_fields \<and> award field = Some v \<and> v \<noteq> PNone \<longrightarrow>
                cell (cells r) field =
                  (case py_int B v of Inr k \<Rightarrow> SqlInt k | Inl e \<Rightarrow> SqlNull)))"
proof -
  from insert_awards_middle [OF ins] obtain p m db1 ps2 where
    p: "process_award_for_db B award = Inr p" and
    b: "bind_columns B p award_columns = Inr m" and
    p2: "process_all B post = Inr ps2" and
    e: "executemany B clk (Suc (length pre)) ps2
          (insert_or_replace (clk (length pre)) m db1) = Inr db'" and
    n: "n = length pre + 1 + length post"
    by blast
  let ?t = "clk (length pre)"
  let ?r = "\<lparr>row_id = next_rowid db1, cells = m, created_at = ?t, updated_at = ?t\<rparr>"
  have idm: "identity_of m = award_identity B award"
    using stored_identity [OF p b] .
  have "?r \<in> set (awards_table (insert_or_replace ?t m db1))"
    by (rule inserted_row)
  with e have mem: "?r \<in> set (awards_table db')"
  proof (rule executemany_keeps_row)
    fix q m'
    assume q: "q \<in> set ps2" and bq: "bind_columns B q award_columns = Inr m'"
    from process_all_member [OF p2 q] obtain a where
      a: "a \<in> set post" and pa: "process_award_for_db B a = Inr q"
      by blast
    have "identity_of m' = award_identity B a"
      using stored_identity [OF pa bq] .
    then have "identity_of m' \<in> set (map (award_identity B) post)"
      using a by simp
    then show "\<not> violates_unique m' ?r"
      using kept idm by (auto simp: violates_unique_def)
  qed
  have am: "(\<forall>v. award ''award_amount'' = Some v \<and> py_truthy B v \<longrightarrow>
                cell (cells ?r) ''award_amount'' =
                  (case float_of_str B (replace_commas (py_str B v)) of
                     Some f \<Rightarrow> if float_is_nan B f then SqlNull else SqlReal f
                   | None \<Rightarrow> SqlNull))
         \<and> (\<forall>v. award ''award_amount'' = Some v \<and> \<not> py_truthy B v \<longrightarrow>
                cell (cells ?r) ''award_amount'' = stored_cell B ''award_amount'' (Some v))"
    using bound_amount [OF p b] by simp
  have ints: "\<forall>field v. field \<in> set int_fields \<and> award field = Some v \<and> v \<noteq> PNone \<longrightarrow>
                cell (cells ?r) field =
                  (case py_int B v of Inr k \<Rightarrow> SqlInt k | Inl e \<Rightarrow> SqlNull)"
    using bound_int_field [OF p b] by simp
  have "updated_at ?r = ?t \<and> identity_of (cells ?r) = award_identity B award"
    using idm by simp
  with mem am ints n show ?thesis
    by blast
qed

theorem stored_amount_and_integer_fields_witness:
  "(\<exists>n db'. insert_awards example_builtins example_clock False
               ([first_award] @ comma_amount_award # [last_award]) stored_db = Inr (n, db')
      \<and> n = 3
      \<and> (\<exists>r \<in> set (awards_table db'). updated_at r = 101
            \<and> cell (cells r) ''award_amount'' = SqlReal 1234.5
            \<and> cell (cells r) ''award_year'' = SqlInt 2025))
   \<and> (\<exists>n db'. insert_awards example_builtins example_clock False
               ([first_award] @ bad_amount_award # [last_award]) stored_db = Inr (n, db')
      \<and> n = 3
      \<and> (\<exists>r \<in> set (awards_table db'). updated_at r = 101
            \<and> cell (cells r) ''award_amount'' = SqlNull
            \<and> cell (cells r) ''award_year'' = SqlNull))"
proof -
  let ?B = example_builtins
  have "case insert_awards ?B example_clock False
               ([first_award] @ comma_amount_award # [last_award]) stored_db of
          Inr x \<Rightarrow> True | Inl e \<Rightarrow> False"
    by code_simp
  then obtain n1 db1 where
    h1: "insert_awards ?B example_clock False
           ([first_award] @ comma_amount_award # [last_award]) stored_db = Inr (n1, db1)"
    by (cases "insert_awards ?B example_clock False
                 ([first_award] @ comma_amount_award # [last_award]) stored_db") auto
  have "case insert_awards ?B example_clock False
               ([first_award] @ bad_amount_award # [last_award]) stored_db of
          Inr x \<Rightarrow> True | Inl e \<Rightarrow> False"
    by code_simp
  then obtain n2 db2 where
    h2: "insert_awards ?B example_clock False
           ([first_award] @ bad_amount_award # [last_award]) stored_db = Inr (n2, db2)"
    by (cases "insert_awards ?B example_clock False
                 ([first_award] @ bad_amount_award # [last_award]) stored_db") auto
  have k1: "award_identity ?B comma_amount_award \<notin> set (map (award_identity ?B) [last_award])"
    and k2: "award_identity ?B bad_amount_award \<notin> set (map (award_identity ?B) [last_award])"
    by code_simp+
  have a1: "comma_amount_award ''award_amount'' = Some (PStr ''1,234.50'')"
    and b1: "py_truthy ?B (PStr ''1,234.50'')"
    and f1: "(case float_of_str ?B (replace_commas (py_str ?B (PStr ''1,234.50''))) of
                Some f \<Rightarrow> if float_is_nan ?B f then SqlNull else SqlReal f
              | None \<Rightarrow> SqlNull) = SqlReal 1234.5"
    and y1: "''award_year'' \<in> set int_fields"
    and v1: "comma_amount_award ''award_year'' = Some (PInt 2025)"
    and i1: "(case py_int ?B (PInt 2025) of Inr k \<Rightarrow> SqlInt k | Inl e \<Rightarrow> SqlNull)
               = (SqlInt 2025 :: rat sqlval)"
    by code_simp+
  have a2: "bad_amount_award ''award_amount'' = Some (PStr ''not-a-number'')"
    and b2: "py_truthy ?B (PStr ''not-a-number'')"
    and f2: "(case float_of_str ?B (replace_commas (py_str ?B (PStr ''not-a-number''))) of
                Some f \<Rightarrow> if float_is_nan ?B f then SqlNull else SqlReal f
              | None \<Rightarrow> SqlNull) = SqlNull"
    and v2: "bad_amount_award ''award_year'' = Some (PStr ''n/a'')"
    and i2: "(case py_int ?B (PStr ''n/a'') of Inr k \<Rightarrow> SqlInt k | Inl e \<Rightarrow> SqlNull)
               = (SqlNull :: rat sqlval)"
    by code_simp+
  have t: "example_clock (length [first_award]) = 101"
    and l: "length [first_award] + 1 + length [last_award] = 3"
    by (simp_all add: example_clock_def)
  note t1 = stored_amount_and_integer_fields [OF h1 disjI1 [OF k1]]
  note t2 = stored_amount_and_integer_fields [OF h2 disjI1 [OF k2]]
  from t1 obtain r1 where
    m1: "r1 \<in> set (awards_table db1)" and
    u1: "updated_at r1 = example_clock (length [first_award])" and
    am1: "\<forall>v. comma_amount_award ''award_amount'' = Some v \<and> py_truthy ?B v \<longrightarrow>
            cell (cells r1) ''award_amount'' =
              (case float_of_str ?B (replace_commas (py_str ?B v)) of
                 Some f \<Rightarrow> if float_is_nan ?B f then SqlNull else SqlReal f
               | None \<Rightarrow> SqlNull)" and
    in1: "\<forall>field v. field \<in> set int_fields \<and> comma_amount_award field = Some v \<and> v \<noteq> PNone \<longrightarrow>
            cell (cells r1) field =
              (case py_int ?B v of Inr k \<Rightarrow> SqlInt k | Inl e \<Rightarrow> SqlNull)"
    by blast
  from t2 obtain r2 where
    m2: "r2 \<in> set (awards_table db2)" and
    u2: "updated_at r2 = example_clock (length [first_award])" and
    am2: "\<forall>v. bad_amount_award ''award_amount'' = Some v \<and> py_truthy ?B v \<longrightarrow>
            cell (cells r2) ''award_amount'' =
              (case float_of_str ?B (replace_commas (py_str ?B v)) of
                 Some f \<Rightarrow> if float_is_nan ?B f then SqlNull else SqlReal f
               | None \<Rightarrow> SqlNull)" and
    in2: "\<forall>field v. field \<in> set int_fields \<and> bad_amount_award field = Some v \<and> v \<noteq> PNone \<longrightarrow>
            cell (cells r2) field =
              (case py_int ?B v of Inr k \<Rightarrow> SqlInt k | Inl e \<Rightarrow> SqlNull)"
    by blast
  have n1: "n1 = 3" and n2: "n2 = 3"
    using conjunct1 [OF t1] conjunct1 [OF t2] l by simp_all
  have c1: "cell (cells r1) ''award_amount'' = SqlReal 1234.5"
    using am1 [rule_format, of "PStr ''1,234.50''"] a1 b1 f1 by (simp only:)
  have c2: "cell (cells r1) ''award_year'' = SqlInt 2025"
    using in1 [rule_format, of "''award_year''" "PInt 2025"] y1 v1 i1
    by (simp only: pyval.distinct not_False_eq_True simp_thms)
  have c3: "cell (cells r2) ''award_amount'' = SqlNull"
    using am2 [rule_format, of "PStr ''not-a-number''"] a2 b2 f2 by (simp only:)
  have c4: "cell (cells r2) ''award_year'' = SqlNull"
    using in2 [rule_format, of "''award_year''" "PStr ''n/a''"] y1 v2 i2
    by (simp only: pyval.distinct not_False_eq_True simp_thms)
  have w1: "\<exists>r \<in> set (awards_table db1). updated_at r = 101
            \<and> cell (cells r) ''award_amount'' = SqlReal 1234.5
            \<and> cell (cells r) ''award_year'' = SqlInt 2025"
    using m1 u1 c1 c2 unfolding t by blast
  have w2: "\<exists>r \<in> set (awards_table db2). updated_at r = 101
            \<and> cell (cells r) ''award_amount'' = SqlNull
            \<and> cell (cells r) ''award_year'' = SqlNull"
    using m2 u2 c3 c4 unfolding t by blast
  show ?thesis
    using h1 h2 n1 n2 w1 w2 by blast
qed


text \<open>
  The claim as stated fails on an empty amount, which does not parse and is stored as
  the empty text, not as NULL; and an employee count of \<^verbatim>\<open>"1,200"\<close> is stored as NULL
  although it parses once the comma is removed: integer fields are not stripped.
\<close>

theorem blank_amount_not_null:
  "float_of_str example_builtins (replace_commas (py_str example_builtins (PStr []))) = None
   \<and> (case insert_awards example_builtins example_clock False [blank_amount_award] empty_db of
        Inr (n, db') \<Rightarrow> cell (cells (last (awards_table db'))) ''award_amount''
      | Inl e \<Rightarrow> SqlNull) = SqlText []
   \<and> int_of_str example_builtins (replace_commas ''1,200'') = Some 1200
   \<and> (case insert_awards example_builtins example_clock False [comma_employees_award] empty_db of
        Inr (n, db') \<Rightarrow> cell (cells (last (awards_table db'))) ''number_employees''
      | Inl e \<Rightarrow> SqlInt 0) = SqlNull"
  by code_simp


section \<open>Storage faults\<close>

text \<open>
  C8 (as amended). A storage fault during an upsert or during \<open>set_metadata\<close> reaches the
  caller as an exception; during the three read operations it is caught by the method,
  which returns 0, None and None.
\<close>

theorem storage_fault_by_operation:
  "isl (insert_awards B clk True (award # rest) db)
   \<and> set_metadata True key v db = Inl Sqlite3Error
   \<and> get_record_count True db = Inr 0
   \<and> get_latest_date True db = Inr None
   \<and> get_metadata True key db = Inr None"
  by (simp add: insert_awards_def set_metadata_def sql_replace_metadata_def
        get_record_count_def sql_count_awards_def get_latest_date_def
        sql_max_proposal_date_def get_metadata_def sql_select_metadata_def
      split: sum.splits)

text \<open>
  The claim as stated fails on the read operations: with one award and a last-check
  time stored, a fault makes the count 0 and the metadata value None.
\<close>

theorem read_fault_swallowed:
  "sql_count_awards True stored_db = Inl Sqlite3Error
   \<and> get_record_count True stored_db = Inr 0
   \<and> get_record_count False stored_db = Inr 1
   \<and> sql_select_metadata True ''last_update_check'' stored_db = Inl Sqlite3Error
   \<and> get_metadata True ''last_update_check'' stored_db = Inr None
   \<and> get_metadata False ''last_update_check'' stored_db = Inr (Some ''2025-01-05T02:00:00'')"
  by code_simp

section \<open>Retry policy of the fetch\<close>

lemma attempts_range: "[0..<MAX_RETRIES] = [0, Suc 0, Suc (Suc 0)]"
  by (simp add: MAX_RETRIES_def upt_rec numeral_3_eq_3)

lemma retries_left: "MAX_RETRIES - 1 = Suc (Suc 0)"
  by (simp add: MAX_RETRIES_def)

lemma fetch_all_fail:
  assumes "http 0 = Raised e0" "is_RequestException e0"
    "http (Suc 0) = Raised e1" "is_RequestException e1"
    "http (Suc (Suc 0)) = Raised e2" "is_RequestException e2"
  shows "fetch_attempts http [0, Suc 0, Suc (Suc 0)] [] [] =
        \<lparr>page = None, raised = None, requests = [0, Suc 0, Suc (Suc 0)],
         sleeps = replicate (Suc (Suc 0)) RETRY_DELAY\<rparr>"
proof -
  have a: "fetch_attempts http [Suc (Suc 0)] [0, Suc 0] [RETRY_DELAY, RETRY_DELAY] =
        \<lparr>page = None, raised = None, requests = [0, Suc 0, Suc (Suc 0)],
         sleeps = [RETRY_DELAY, RETRY_DELAY]\<rparr>"
    by (simp add: assms MAX_RETRIES_def)
  have b: "fetch_attempts http [Suc 0, Suc (Suc 0)] [0] [RETRY_DELAY] =
        fetch_attempts http [Suc (Suc 0)] [0, Suc 0] [RETRY_DELAY, RETRY_DELAY]"
    by (simp add: assms MAX_RETRIES_def)
  have c: "fetch_attempts http [0, Suc 0, Suc (Suc 0)] [] [] =
        fetch_attempts http [Suc 0, Suc (Suc 0)] [0] [RETRY_DELAY]"
    by (simp add: assms MAX_RETRIES_def)
  show ?thesis
    by (simp only: a b c replicate.simps)
qed

text \<open>
  Attempts that all raise a RequestException: the ceiling of \<open>MAX_RETRIES\<close> attempts is
  reached, with a delay of \<open>RETRY_DELAY\<close> between two attempts, and the fetch returns
  None; it raises nothing.
\<close>

lemma persistent_request_exception:
  assumes a: "\<forall>i < MAX_RETRIES. \<exists>e. http i = Raised e \<and> is_RequestException e"
  shows "fetch_batch http =
        \<lparr>page = None, raised = None, requests = [0..<MAX_RETRIES],
         sleeps = replicate (MAX_RETRIES - 1) RETRY_DELAY\<rparr>"
proof -
  have lt: "(0::nat) < MAX_RETRIES" "Suc 0 < MAX_RETRIES" "Suc (Suc 0) < MAX_RETRIES"
    by (simp_all add: MAX_RETRIES_def)
  from a [rule_format, OF lt(1)] obtain e0 where
    f0: "http 0 = Raised e0" "is_RequestException e0"
    by (elim exE conjE)
  from a [rule_format, OF lt(2)] obtain e1 where
    f1: "http (Suc 0) = Raised e1" "is_RequestException e1"
    by (elim exE conjE)
  from a [rule_format, OF lt(3)] obtain e2 where
    f2: "http (Suc (Suc 0)) = Raised e2" "is_RequestException e2"
    by (elim exE conjE)
  note f = f0 f1 f2
  have "fetch_attempts http [0, Suc 0, Suc (Suc 0)] [] [] =
        \<lparr>page = None, raised = None, requests = [0, Suc 0, Suc (Suc 0)],
         sleeps = replicate (Suc (Suc 0)) RETRY_DELAY\<rparr>"
    using f by (rule fetch_all_fail)
  then show ?thesis
    by (simp only: fetch_batch_def attempts_range retries_left)
qed

text \<open>
  What reaches the second handler or the \<^verbatim>\<open>else\<close> branch ends the fetch at once: a
  \<^verbatim>\<open>json.JSONDecodeError\<close> that is no RequestException, or a body that is neither a list
  nor an object.
\<close>

lemma immediate_failure:
  assumes "http 0 = Raised JsonJSONDecodeError \<or> http 0 = Response JsonOther"
  shows "fetch_batch http = \<lparr>page = None, raised = None, requests = [0], sleeps = []\<rparr>"
  using assms by (auto simp: fetch_batch_def attempts_range)

text \<open>An object whose \<^verbatim>\<open>docs\<close> has no length: the TypeError leaves \<open>fetch_batch\<close>.\<close>

lemma unsized_docs_raise:
  assumes "http 0 = Response (JsonDict (Some DocsUnsized))"
  shows "fetch_batch http =
           \<lparr>page = None, raised = Some TypeError, requests = [0], sleeps = []\<rparr>"
  using assms by (simp add: fetch_batch_def attempts_range)

lemma served_page:
  assumes "http 0 = Response (JsonList awards)"
  shows "page (fetch_batch http) = Some awards"
  using assms by (simp add: fetch_batch_def attempts_range)

text \<open>
  C7 (where the code departs from the claim). A body that does not parse makes
  \<^verbatim>\<open>response.json()\<close> raise \<^verbatim>\<open>requests.exceptions.JSONDecodeError\<close>, which is a
  RequestException: the first handler of \<open>fetch_batch\<close> takes it, and the handler for
  \<^verbatim>\<open>json.JSONDecodeError\<close> written after it, which returns at once, is never reached. So
  a malformed body is retried like a transport failure: with such a body on every
  attempt the fetch makes all three requests, sleeps five seconds after the first and
  after the second, and only then returns None.
\<close>

theorem undecodable_body_is_retried:
  "fetch_batch undecodable_body =
     \<lparr>page = None, raised = None, requests = [0, 1, 2], sleeps = [5, 5]\<rparr>"
proof -
  have "\<forall>i < MAX_RETRIES. \<exists>e. undecodable_body i = Raised e \<and> is_RequestException e"
    by (simp add: undecodable_body_def)
  then have "fetch_batch undecodable_body =
        \<lparr>page = None, raised = None, requests = [0..<MAX_RETRIES],
         sleeps = replicate (MAX_RETRIES - 1) RETRY_DELAY\<rparr>"
    by (rule persistent_request_exception)
  moreover have "[0..<MAX_RETRIES] = [0, 1, 2]"
    by (simp add: attempts_range)
  moreover have "replicate (MAX_RETRIES - 1) RETRY_DELAY = [5, 5]"
    by (simp add: MAX_RETRIES_def RETRY_DELAY_def numeral_2_eq_2)
  ultimately show ?thesis
    by simp
qed

section \<open>A check that passes the gate\<close>

lemma identify_loop_filter:
  assumes "list_all (hashable_contract B) recent"
  shows "identify_loop B recent existing acc = Inr (acc @ filter (new_by_contract B existing) recent)"
  using assms
proof (induction recent arbitrary: acc)
  case Nil
  then show ?case by simp
next
  case (Cons a rest)
  then show ?case
    by (cases "dict_get a ''contract''")
       (auto simp: new_by_contract_def hashable_def hashable_contract_def Let_def)
qed


lemma insert_awards_count:
  assumes "insert_awards B clk f batch d = Inr (n, d')"
  shows "n = length batch"
proof (cases "batch = []")
  case True
  then show ?thesis
    using assms by (simp add: insert_awards_def)
next
  case False
  then obtain ps where ps: "process_all B batch = Inr ps" and n: "n = length ps"
    using assms by (auto simp: insert_awards_def split: sum.splits if_splits)
  show ?thesis
    using process_all_length [OF ps] n by simp
qed

text \<open>
  A check that passes the gate, reads the stored contracts and meets no unhashable
  contract: what it returns is determined by the upsert of the awards that are new by
  contract (the upsert of an empty batch changes nothing and counts 0).
\<close>

lemma open_gate_check:
  assumes opened: "force \<or> should_check_for_updates E d"
    and readable: "\<not> sync_fault E OpContracts"
    and hashable: "list_all (hashable_contract B) (recent_awards E)"
  shows "check_for_updates B E force d =
     (case insert_awards B (sync_time E) (sync_fault E OpUpsert)
             (filter (new_by_contract B (stored_contracts d)) (recent_awards E)) d of
        Inl e \<Rightarrow>
          \<lparr>succeeded = False, sync_db = d, new_records_found = 0, scanned = True,
           upsert_batch = filter (new_by_contract B (stored_contracts d)) (recent_awards E)\<rparr>
      | Inr (inserted, d') \<Rightarrow>
          if inserted > 0 \<and> sync_fault E OpExport then
            \<lparr>succeeded = False, sync_db = d', new_records_found = inserted, scanned = True,
             upsert_batch = filter (new_by_contract B (stored_contracts d)) (recent_awards E)\<rparr>
          else
            \<lparr>succeeded = True, sync_db = update_metadata E inserted d',
             new_records_found = inserted, scanned = True,
             upsert_batch = filter (new_by_contract B (stored_contracts d)) (recent_awards E)\<rparr>)"
proof -
  let ?new = "filter (new_by_contract B (stored_contracts d)) (recent_awards E)"
  have ex: "get_existing_contracts E d = stored_contracts d"
    using readable by (simp add: get_existing_contracts_def stored_contracts_def)
  have idn: "identify_new_awards B (recent_awards E) (stored_contracts d) = Inr ?new"
    using identify_loop_filter [OF hashable, of "stored_contracts d" "[]"]
    by (simp add: identify_new_awards_def)
  have opened': "(\<not> force \<and> \<not> should_check_for_updates E d) = False"
    using opened by blast
  have none: "insert_awards B (sync_time E) (sync_fault E OpUpsert) [] d = Inr (0, d)"
    by (simp add: insert_awards_def)
  show ?thesis
  proof (cases "recent_awards E = []")
    case True
    then show ?thesis
      using none by (simp add: check_for_updates_def Let_def opened')
  next
    case False
    note recent = this
    show ?thesis
    proof (cases "?new = []")
      case True
      then show ?thesis
        using recent none by (simp add: check_for_updates_def Let_def ex idn opened')
    next
      case False
      then show ?thesis
        using recent by (simp add: check_for_updates_def Let_def ex idn opened')
    qed
  qed
qed


lemma update_metadata_rows: "awards_table (update_metadata E k d) = awards_table d"
  by (simp add: update_metadata_def set_metadata_def sql_replace_metadata_def)

lemma update_metadata_last_check:
  assumes "\<not> sync_fault E OpMetaCheck"
  shows "scraper_metadata (update_metadata E k d) ''last_update_check'' =
           Some (isoformat E (now_metadata E))"
  using assms by (simp add: update_metadata_def set_metadata_def sql_replace_metadata_def)

lemma forced_success_refreshes:
  assumes "succeeded (check_for_updates B E True d)"
  shows "\<exists>k d0. sync_db (check_for_updates B E True d) = update_metadata E k d0"
proof (cases "recent_awards E = []")
  case True
  then show ?thesis
    by (auto simp: check_for_updates_def Let_def)
next
  case False
  note recent = this
  show ?thesis
  proof (cases "identify_new_awards B (recent_awards E) (get_existing_contracts E d)")
    case (Inl e)
    then show ?thesis
      using assms recent by (simp add: check_for_updates_def Let_def)
  next
    case (Inr new_awards)
    note idn = this
    show ?thesis
    proof (cases "new_awards = []")
      case True
      then show ?thesis
        using recent idn by (auto simp: check_for_updates_def Let_def)
    next
      case False
      note new = this
      show ?thesis
      proof (cases "insert_awards B (sync_time E) (sync_fault E OpUpsert) new_awards d")
        case (Inl e)
        then show ?thesis
          using assms recent idn new by (simp add: check_for_updates_def Let_def)
      next
        case (Inr r)
        obtain n d' where r: "r = (n, d')" by (cases r)
        show ?thesis
        proof (cases "n > 0 \<and> sync_fault E OpExport")
          case True
          then have c: "(n > 0 \<and> sync_fault E OpExport) = True"
            by simp
          have "\<not> succeeded (check_for_updates B E True d)"
            using recent idn new Inr r by (simp add: check_for_updates_def Let_def c)
          then show ?thesis
            using assms by simp
        next
          case False
          then have c: "(n > 0 \<and> sync_fault E OpExport) = False"
            by simp
          have "sync_db (check_for_updates B E True d) = update_metadata E n d'"
            using recent idn new Inr r by (simp add: check_for_updates_def Let_def c)
          then show ?thesis by blast
        qed
      qed
    qed
  qed
qed

section \<open>Schedule gate\<close>

lemma le_div_int_iff:
  fixes c k x :: int
  assumes "0 < c"
  shows "(k \<le> x div c) = (k * c \<le> x)"
proof -
  have c0: "c \<noteq> 0" using assms by simp
  have "(x + (- k) * c) div c = (- k) + x div c"
    using c0 by (rule div_mult_self1)
  then have e: "(x - k * c) div c = x div c - k" by simp
  have "(0 \<le> (x - k * c) div c) = (0 \<le> x - k * c)"
    using assms by (rule pos_imp_zdiv_nonneg_iff)
  then have "(0 \<le> x div c - k) = (0 \<le> x - k * c)"
    by (simp only: e)
  then show ?thesis by simp
qed

lemma young_check:
  "(x div microseconds_per_day \<ge> UPDATE_CHECK_DAYS)
     \<longleftrightarrow> x \<ge> UPDATE_CHECK_DAYS * microseconds_per_day"
proof -
  have "0 < microseconds_per_day" by (simp add: microseconds_per_day_def)
  then show ?thesis by (rule le_div_int_iff)
qed

text \<open>
  C6 (as amended). With a stored last-check time that is read without a storage fault,
  is not empty, parses and is younger than the check interval, an unforced check
  returns True without scanning or upserting, with zero new records and the database,
  the last-check time included, as it was. A forced check proceeds all the same: it
  scans; when the stored contracts are read without fault and no fetched contract is
  unhashable, the batch it hands to the upsert is the list of fetched awards that are
  new by contract, and when that upsert is accepted and the export does not fail the
  check succeeds, reports the number of statements of the upsert and leaves the table
  as the upsert left it; and whenever it succeeds, the metadata write not failing, the
  stored last-check time is the time of this check.
\<close>

theorem schedule_gate:
  assumes stored: "scraper_metadata d ''last_update_check'' = Some s"
    and nonempty: "s \<noteq> []"
    and parsed: "fromisoformat E s = Some t"
    and readable: "\<not> sync_fault E OpLastCheck"
    and young: "now E - t < UPDATE_CHECK_DAYS * microseconds_per_day"
  shows "check_for_updates B E False d =
           \<lparr>succeeded = True, sync_db = d, new_records_found = 0, scanned = False,
            upsert_batch = []\<rparr>
     \<and> scanned (check_for_updates B E True d)
     \<and> (\<not> sync_fault E OpContracts \<and> list_all (hashable_contract B) (recent_awards E) \<longrightarrow>
          upsert_batch (check_for_updates B E True d) =
            filter (new_by_contract B (stored_contracts d)) (recent_awards E))
     \<and> (\<forall>n d'. \<not> sync_fault E OpContracts \<and> list_all (hashable_contract B) (recent_awards E)
            \<and> insert_awards B (sync_time E) (sync_fault E OpUpsert)
                 (filter (new_by_contract B (stored_contracts d)) (recent_awards E)) d = Inr (n, d')
            \<and> \<not> sync_fault E OpExport \<longrightarrow>
          succeeded (check_for_updates B E True d)
          \<and> new_records_found (check_for_updates B E True d) = n
          \<and> awards_table (sync_db (check_for_updates B E True d)) = awards_table d')
     \<and> (succeeded (check_for_updates B E True d) \<and> \<not> sync_fault E OpMetaCheck \<longrightarrow>
          scraper_metadata (sync_db (check_for_updates B E True d)) ''last_update_check'' =
            Some (isoformat E (now_metadata E)))"
proof -
  let ?new = "filter (new_by_contract B (stored_contracts d)) (recent_awards E)"
  let ?forced = "check_for_updates B E True d"
  have "get_last_update_date E d = Some t"
    using stored nonempty parsed readable
    by (simp add: get_last_update_date_def get_metadata_def sql_select_metadata_def)
  then have "\<not> should_check_for_updates E d"
    using young by (simp add: should_check_for_updates_def young_check)
  then have a: "check_for_updates B E False d =
           \<lparr>succeeded = True, sync_db = d, new_records_found = 0, scanned = False,
            upsert_batch = []\<rparr>"
    by (simp add: check_for_updates_def)
  have b: "scanned ?forced"
    by (simp add: check_for_updates_def Let_def split: sum.splits prod.splits)
  have forced: "True \<or> should_check_for_updates E d"
    by simp
  have c: "upsert_batch ?forced = ?new"
    if "\<not> sync_fault E OpContracts" "list_all (hashable_contract B) (recent_awards E)"
    using open_gate_check [OF forced that]
    by (simp split: sum.splits prod.splits)
  have e: "succeeded ?forced \<and> new_records_found ?forced = n
           \<and> awards_table (sync_db ?forced) = awards_table d'"
    if "\<not> sync_fault E OpContracts" "list_all (hashable_contract B) (recent_awards E)"
      and "insert_awards B (sync_time E) (sync_fault E OpUpsert) ?new d = Inr (n, d')"
      and "\<not> sync_fault E OpExport" for n d'
    using open_gate_check [OF forced that(1,2)] that(3,4)
    by (simp add: update_metadata_rows)
  have f: "scraper_metadata (sync_db ?forced) ''last_update_check'' =
             Some (isoformat E (now_metadata E))"
    if s: "succeeded ?forced" and m: "\<not> sync_fault E OpMetaCheck"
  proof -
    from forced_success_refreshes [OF s] obtain k d0 where
      "sync_db ?forced = update_metadata E k d0"
      by blast
    then show ?thesis
      using update_metadata_last_check [OF m] by simp
  qed
  show ?thesis
    using a b c e f by blast
qed

theorem schedule_gate_witness:
  "scraper_metadata stored_db ''last_update_check'' = Some ''2025-01-05T02:00:00''
   \<and> fromisoformat (example_sync [award_c]) ''2025-01-05T02:00:00'' = Some 0
   \<and> now (example_sync [award_c]) - 0 = 2 * microseconds_per_day + 3600000000
   \<and> check_for_updates example_builtins (example_sync [award_c]) False stored_db =
        \<lparr>succeeded = True, sync_db = stored_db, new_records_found = 0, scanned = False,
         upsert_batch = []\<rparr>
   \<and> scanned (check_for_updates example_builtins (example_sync [award_c]) True stored_db)
   \<and> upsert_batch (check_for_updates example_builtins (example_sync [award_c]) True stored_db)
        = [award_c]
   \<and> succeeded (check_for_updates example_builtins (example_sync [award_c]) True stored_db)
   \<and> new_records_found
        (check_for_updates example_builtins (example_sync [award_c]) True stored_db) = 1
   \<and> length (awards_table (sync_db
        (check_for_updates example_builtins (example_sync [award_c]) True stored_db))) = 2
   \<and> scraper_metadata (sync_db
        (check_for_updates example_builtins (example_sync [award_c]) True stored_db))
        ''last_update_check'' = Some ''2025-01-07T03:00:05''"
proof -
  let ?B = example_builtins
  let ?E = "example_sync [award_c]"
  let ?r = "check_for_updates ?B ?E True stored_db"
  have a: "scraper_metadata stored_db ''last_update_check'' = Some ''2025-01-05T02:00:00''"
    by (simp add: stored_db_def)
  have b: "''2025-01-05T02:00:00'' \<noteq> []" by simp
  have c: "fromisoformat ?E ''2025-01-05T02:00:00'' = Some 0"
    by (simp add: example_sync_def)
  have d: "\<not> sync_fault ?E OpLastCheck"
    by (simp add: example_sync_def)
  have e: "now ?E - 0 < UPDATE_CHECK_DAYS * microseconds_per_day"
    by (simp add: example_sync_def UPDATE_CHECK_DAYS_def microseconds_per_day_def)
  have f: "now ?E - 0 = 2 * microseconds_per_day + 3600000000"
    by (simp add: example_sync_def microseconds_per_day_def)
  have nf: "\<not> sync_fault ?E OpContracts" "\<not> sync_fault ?E OpExport"
    "\<not> sync_fault ?E OpMetaCheck" "sync_fault ?E OpUpsert = False"
    and rec: "recent_awards ?E = [award_c]"
    and tm: "sync_time ?E = example_clock"
    and iso: "isoformat ?E (now_metadata ?E) = ''2025-01-07T03:00:05''"
    by (simp_all add: example_sync_def)
  have h: "list_all (hashable_contract ?B) (recent_awards ?E)"
    unfolding rec by code_simp
  have nc: "new_by_contract ?B (stored_contracts stored_db) award_c"
    by code_simp
  have fl: "filter (new_by_contract ?B (stored_contracts stored_db)) (recent_awards ?E)
              = [award_c]"
    unfolding rec using nc by simp
  have "case insert_awards ?B example_clock False [award_c] stored_db of
          Inr (n, d') \<Rightarrow> length (awards_table d') = 2 | Inl e \<Rightarrow> False"
    by code_simp
  then obtain n d' where
    ins: "insert_awards ?B example_clock False [award_c] stored_db = Inr (n, d')" and
    len: "length (awards_table d') = 2"
    by (cases "insert_awards ?B example_clock False [award_c] stored_db") auto
  have n: "n = 1"
    using insert_awards_count [OF ins] by simp
  have ins': "insert_awards ?B (sync_time ?E) (sync_fault ?E OpUpsert)
                (filter (new_by_contract ?B (stored_contracts stored_db)) (recent_awards ?E))
                stored_db = Inr (n, d')"
    unfolding fl tm nf(4) using ins .
  note t = schedule_gate [OF a b c d e, of ?B]
  have t1: "check_for_updates ?B ?E False stored_db =
        \<lparr>succeeded = True, sync_db = stored_db, new_records_found = 0, scanned = False,
         upsert_batch = []\<rparr>"
    and t2: "scanned ?r"
    using t by blast+
  have t3: "upsert_batch ?r = [award_c]"
    using t nf(1) h fl by simp
  have t4: "succeeded ?r \<and> new_records_found ?r = n
            \<and> awards_table (sync_db ?r) = awards_table d'"
    using t nf(1,2) h ins' by blast
  have t5: "scraper_metadata (sync_db ?r) ''last_update_check'' = Some ''2025-01-07T03:00:05''"
    using t t4 nf(3) iso by simp
  show ?thesis
    using a c f t1 t2 t3 t4 t5 n len by simp
qed

text \<open>
  The claim as stated fails when the read of the stored time meets a storage fault:
  \<open>get_metadata\<close> then returns None, the gate takes the last check to be absent, and
  the unforced check scans, upserts and rewrites the last-check time, although the
  stored time is two days old.
\<close>

theorem unreadable_last_check_scans:
  "scraper_metadata stored_db ''last_update_check'' = Some ''2025-01-05T02:00:00''
   \<and> fromisoformat (unreadable_sync [award_c]) ''2025-01-05T02:00:00'' = Some 0
   \<and> now (unreadable_sync [award_c]) - 0 < UPDATE_CHECK_DAYS * microseconds_per_day
   \<and> sync_fault (unreadable_sync [award_c]) OpLastCheck
   \<and> scanned (check_for_updates example_builtins (unreadable_sync [award_c]) False stored_db)
   \<and> length (upsert_batch
        (check_for_updates example_builtins (unreadable_sync [award_c]) False stored_db)) = 1
   \<and> scraper_metadata (sync_db
        (check_for_updates example_builtins (unreadable_sync [award_c]) False stored_db))
        ''last_update_check'' = Some ''2025-01-07T03:00:05''"
  by code_simp

section \<open>New awards of an incremental sync\<close>




section \<open>One iteration of the harvest\<close>

lemma empty_page_step:
  assumes "page (fetch_batch (http_at E (offset st))) = Some []"
  shows "iteration B E st =
     (if consecutive_empty_batches st + 1 \<ge> 3 then
        Break (st\<lparr>fetch_offsets := fetch_offsets st @ [offset st],
                  interrupted := interrupted st \<or> signal_at E (offset st),
                  consecutive_empty_batches := consecutive_empty_batches st + 1\<rparr>)
      else
        Continue (st\<lparr>fetch_offsets := fetch_offsets st @ [offset st],
                     interrupted := interrupted st \<or> signal_at E (offset st),
                     consecutive_empty_batches := consecutive_empty_batches st + 1,
                     offset := offset st + BATCH_SIZE\<rparr>))"
  using assms by (simp add: iteration_def Let_def)

text \<open>
  A fetch that returns no page ends the run: as a failed fetch when \<open>fetch_batch\<close>
  returned None, through the outer handler when an exception left it.
\<close>

lemma failed_fetch_step:
  assumes "page (fetch_batch (http_at E (offset st))) = None"
  shows "iteration B E st =
     Return (if raised (fetch_batch (http_at E (offset st))) = None then FetchFailed
             else FatalError)
       (st\<lparr>fetch_offsets := fetch_offsets st @ [offset st],
           interrupted := interrupted st \<or> signal_at E (offset st)\<rparr>)"
  using assms by (simp add: iteration_def Let_def split: option.splits)

lemma checkpoint_keeps:
  "case checkpoint E st of
     Continue st' \<Rightarrow> offset st' = offset st
        \<and> consecutive_empty_batches st' = consecutive_empty_batches st
   | Break st' \<Rightarrow> False
   | Return oc st' \<Rightarrow> oc = DatabaseError
        \<and> consecutive_empty_batches st' = consecutive_empty_batches st"
  by (simp add: checkpoint_def split: sum.splits)

lemma nonempty_page_step:
  assumes "page (fetch_batch (http_at E (offset st))) = Some awards" and "awards \<noteq> []"
  shows "case iteration B E st of
     Continue st' \<Rightarrow> consecutive_empty_batches st' = 0 \<and> offset st' = offset st + length awards
   | Break st' \<Rightarrow> False
   | Return oc st' \<Rightarrow> oc = DatabaseError \<and> consecutive_empty_batches st' = 0"
proof (cases "validate_batch B awards = []")
  case True
  then show ?thesis
    using assms by (simp add: iteration_def Let_def)
next
  case False
  let ?st2 = "st\<lparr>fetch_offsets := fetch_offsets st @ [offset st],
                  interrupted := interrupted st \<or> signal_at E (offset st),
                  consecutive_empty_batches := 0\<rparr>"
  show ?thesis
  proof (cases "insert_awards B (sql_time E (offset st)) (faults E (OpInsert (offset st)))
                  (validate_batch B awards) (database_of st)")
    case (Inl e)
    then show ?thesis
      using assms False by (simp add: iteration_def Let_def)
  next
    case (Inr r)
    obtain inserted d' where r: "r = (inserted, d')" by (cases r)
    let ?st3 = "?st2\<lparr>database_of := d',
                     total_downloaded := total_downloaded ?st2 + inserted,
                     offset := offset ?st2 + length awards\<rparr>"
    have it: "iteration B E st = checkpoint E ?st3"
      using assms False Inr r by (simp add: iteration_def Let_def)
    show ?thesis
      using checkpoint_keeps [where E = E and st = "?st3"] unfolding it
      by (auto split: step.splits)
  qed
qed

lemma set_metadata_rows:
  "set_metadata False key v d = Inr (d\<lparr>scraper_metadata := (scraper_metadata d)(key \<mapsto> v)\<rparr>)"
  by (simp add: set_metadata_def sql_replace_metadata_def)

lemma nonempty_page_iteration:
  assumes "page (fetch_batch (http_at E (offset st))) = Some awards"
    and "awards \<noteq> []"
    and "validate_batch B awards \<noteq> []"
    and "insert_awards B (sql_time E (offset st)) (faults E (OpInsert (offset st)))
           (validate_batch B awards) (database_of st) = Inr (inserted, d')"
  shows "iteration B E st =
           checkpoint E
             (st\<lparr>fetch_offsets := fetch_offsets st @ [offset st],
                  interrupted := interrupted st \<or> signal_at E (offset st),
                  consecutive_empty_batches := 0,
                  database_of := d',
                  total_downloaded := total_downloaded st + inserted,
                  offset := offset st + length awards\<rparr>)"
  using assms by (simp add: iteration_def Let_def)

lemma checkpoint_continues:
  assumes "\<not> faults E (OpCheckpointOffset (offset st))"
    and "\<not> faults E (OpCheckpointTime (offset st))"
  shows "\<exists>st'. checkpoint E st = Continue st'
           \<and> offset st' = offset st
           \<and> consecutive_empty_batches st' = consecutive_empty_batches st
           \<and> interrupted st' = interrupted st
           \<and> fetch_offsets st' = fetch_offsets st"
  using assms by (simp add: checkpoint_def set_metadata_rows)

text \<open>
  A non-empty page, with no signal during its fetch, whose upsert and checkpoint raise
  nothing (the upsert of an empty list of valid awards is not run; it would change
  nothing): the iteration goes on to the next one, the streak cleared.
\<close>

lemma nonempty_page_continues:
  assumes pg: "page (fetch_batch (http_at E (offset st))) = Some awards"
    and ne: "awards \<noteq> []"
    and ni: "\<not> interrupted st"
    and quiet: "\<not> signal_at E (offset st)"
    and ins: "insert_awards B (sql_time E (offset st)) (faults E (OpInsert (offset st)))
                (validate_batch B awards) (database_of st) = Inr (n, d')"
    and cp: "\<not> faults E (OpCheckpointOffset (offset st + length awards))"
      "\<not> faults E (OpCheckpointTime (offset st + length awards))"
  shows "\<exists>st'. iteration B E st = Continue st'
           \<and> \<not> interrupted st'
           \<and> consecutive_empty_batches st' = 0
           \<and> offset st' = offset st + length awards
           \<and> fetch_offsets st' = fetch_offsets st @ [offset st]"
proof (cases "validate_batch B awards = []")
  case True
  then show ?thesis
    using pg ne ni quiet by (simp add: iteration_def Let_def)
next
  case False
  let ?st3 = "st\<lparr>fetch_offsets := fetch_offsets st @ [offset st],
                  interrupted := interrupted st \<or> signal_at E (offset st),
                  consecutive_empty_batches := 0,
                  database_of := d',
                  total_downloaded := total_downloaded st + n,
                  offset := offset st + length awards\<rparr>"
  have it: "iteration B E st = checkpoint E ?st3"
    using nonempty_page_iteration [OF pg ne False ins] .
  have c1: "\<not> faults E (OpCheckpointOffset (offset ?st3))"
    and c2: "\<not> faults E (OpCheckpointTime (offset ?st3))"
    using cp by simp_all
  from checkpoint_continues [OF c1 c2] obtain st' where
    c: "checkpoint E ?st3 = Continue st'" and
    o: "offset st' = offset ?st3" and
    k: "consecutive_empty_batches st' = consecutive_empty_batches ?st3" and
    i: "interrupted st' = interrupted ?st3" and
    f: "fetch_offsets st' = fetch_offsets ?st3"
    by blast
  show ?thesis
    using it c o k i f ni quiet by simp
qed

lemma three_empty_pages:
  assumes fresh: "\<not> interrupted st" "consecutive_empty_batches st = 0"
    and e1: "page (fetch_batch (http_at E (offset st))) = Some []"
    and e2: "page (fetch_batch (http_at E (offset st + BATCH_SIZE))) = Some []"
    and e3: "page (fetch_batch (http_at E (offset st + 2 * BATCH_SIZE))) = Some []"
    and quiet: "\<not> signal_at E (offset st)" "\<not> signal_at E (offset st + BATCH_SIZE)"
      "\<not> signal_at E (offset st + 2 * BATCH_SIZE)"
    and nf: "\<not> faults E OpFinalCompleted" "\<not> faults E OpFinalTotal"
      "\<not> faults E OpFinalInterrupted"
  shows "\<exists>st'. download_loop B E (Suc (Suc (Suc fuel))) st = Some (Completed, st')
           \<and> fetch_offsets st' =
               fetch_offsets st @ [offset st, offset st + BATCH_SIZE, offset st + 2 * BATCH_SIZE]
           \<and> awards_table (database_of st') = awards_table (database_of st)
           \<and> scraper_metadata (database_of st') ''download_interrupted'' = Some ''false''"
proof -
  let ?st1 = "st\<lparr>fetch_offsets := fetch_offsets st @ [offset st],
                  interrupted := interrupted st \<or> signal_at E (offset st),
                  consecutive_empty_batches := consecutive_empty_batches st + 1,
                  offset := offset st + BATCH_SIZE\<rparr>"
  let ?st2 = "?st1\<lparr>fetch_offsets := fetch_offsets ?st1 @ [offset ?st1],
                   interrupted := interrupted ?st1 \<or> signal_at E (offset ?st1),
                   consecutive_empty_batches := consecutive_empty_batches ?st1 + 1,
                   offset := offset ?st1 + BATCH_SIZE\<rparr>"
  let ?st3 = "?st2\<lparr>fetch_offsets := fetch_offsets ?st2 @ [offset ?st2],
                   interrupted := interrupted ?st2 \<or> signal_at E (offset ?st2),
                   consecutive_empty_batches := consecutive_empty_batches ?st2 + 1\<rparr>"
  have twice: "offset st + BATCH_SIZE + BATCH_SIZE = offset st + 2 * BATCH_SIZE"
    by simp
  have s1: "iteration B E st = Continue ?st1"
    using empty_page_step [OF e1, of B] fresh by simp
  have p2: "page (fetch_batch (http_at E (offset ?st1))) = Some []"
    using e2 by simp
  have s2: "iteration B E ?st1 = Continue ?st2"
    using empty_page_step [OF p2, of B] fresh by simp
  have o2: "offset ?st2 = offset st + 2 * BATCH_SIZE"
    by simp
  have p3: "page (fetch_batch (http_at E (offset ?st2))) = Some []"
    unfolding o2 using e3 .
  have s3: "iteration B E ?st2 = Break ?st3"
    using empty_page_step [OF p3, of B] fresh by simp
  have q3': "\<not> signal_at E (offset st + BATCH_SIZE + BATCH_SIZE)"
    unfolding twice using quiet(3) .
  have ni: "\<not> interrupted ?st1" "\<not> interrupted ?st2" "\<not> interrupted ?st3"
    using fresh quiet(1,2) q3' by simp_all
  have loop: "download_loop B E (Suc (Suc (Suc fuel))) st = Some (finish E ?st3)"
    using fresh(1) ni s1 s2 s3 by simp
  obtain st' where f: "finish E ?st3 = (Completed, st')"
    and fo: "fetch_offsets st' = fetch_offsets ?st3"
    and rows: "awards_table (database_of st') = awards_table (database_of ?st3)"
    and md: "scraper_metadata (database_of st') ''download_interrupted'' = Some ''false''"
    using ni(3) nf by (simp add: finish_def set_metadata_rows)
  show ?thesis
    using loop f fo rows md by (simp add: mult_2)
qed

text \<open>
  C4 (as amended). When an iteration goes on to the next one, the offset has advanced by
  the number of raw records of the page, whatever validation kept of them, if the page
  was not empty, and by \<open>BATCH_SIZE\<close> if the page was empty.
\<close>

theorem offset_advance:
  assumes "page (fetch_batch (http_at E (offset st))) = Some awards"
    and "iteration B E st = Continue st'"
  shows "offset st' = offset st + (if awards = [] then BATCH_SIZE else length awards)"
proof (cases "awards = []")
  case True
  then show ?thesis
    using assms empty_page_step [of E st B] by (auto split: if_splits)
next
  case False
  then show ?thesis
    using nonempty_page_step [OF assms(1) False, of B] assms(2) by simp
qed

theorem offset_advance_witness:
  "page (fetch_batch (http_at (source_env [sample_award, no_firm_award])
           (offset (new_downloader empty_db)))) = Some [sample_award, no_firm_award]
   \<and> length (validate_batch example_builtins [sample_award, no_firm_award]) = 1
   \<and> (\<exists>st'. iteration example_builtins (source_env [sample_award, no_firm_award])
               (new_downloader empty_db) = Continue st'
            \<and> offset st' = 2)"
proof -
  let ?E = "source_env [sample_award, no_firm_award]"
  let ?st = "new_downloader empty_db"
  have pg: "page (fetch_batch (http_at ?E (offset ?st))) = Some [sample_award, no_firm_award]"
    by (simp add: served_page source_env_def new_downloader_def BATCH_SIZE_def)
  have v: "length (validate_batch example_builtins [sample_award, no_firm_award]) = 1"
    by code_simp
  have "case iteration example_builtins ?E ?st of
          Continue st' \<Rightarrow> True | Break st' \<Rightarrow> False | Return oc st' \<Rightarrow> False"
    by code_simp
  then obtain st' where it: "iteration example_builtins ?E ?st = Continue st'"
    by (cases "iteration example_builtins ?E ?st") auto
  have "offset st' = offset ?st + (if [sample_award, no_firm_award] = [] then BATCH_SIZE
                                    else length [sample_award, no_firm_award])"
    using pg it by (rule offset_advance)
  then have "offset st' = 2"
    by (simp add: new_downloader_def)
  then show ?thesis
    using pg v it by blast
qed

text \<open>
  The claim as stated fails on an empty page: zero raw records are returned and the
  offset advances by 1000.
\<close>

theorem empty_page_advances_by_batch_size:
  "(case page (fetch_batch (http_at (source_env []) (offset (new_downloader empty_db)))) of
      Some awards \<Rightarrow> length awards | None \<Rightarrow> 1) = 0
   \<and> (case iteration example_builtins (source_env []) (new_downloader empty_db) of
        Continue st' \<Rightarrow> offset st' | Break st' \<Rightarrow> 0 | Return oc st' \<Rightarrow> 0) = 1000"
  by code_simp

section \<open>End of data\<close>

text \<open>
  C3 (as amended). From a clear streak, with the flag unset and no signal during the
  first two fetches, which return empty pages at the offsets \<open>o\<close> and
  \<open>o + BATCH_SIZE\<close>. If the page at \<open>o + 2 * BATCH_SIZE\<close> is empty too, no signal
  arrives during its fetch and the three final metadata writes do not fail, the run
  ends as completed after exactly these three fetches. If that page is not empty, no
  signal arrives during its fetch and the upsert of its valid awards and the checkpoint
  raise nothing, the run does not end there: after the three iterations the flag is
  unset, the streak counter is 0 and the offset has advanced by the raw length of the
  page; three units of fuel do not end the run, and a fourth iteration is run from
  that state.
\<close>

theorem end_of_data_detection:
  assumes fresh: "\<not> interrupted st" "consecutive_empty_batches st = 0"
    and e1: "page (fetch_batch (http_at E (offset st))) = Some []"
    and e2: "page (fetch_batch (http_at E (offset st + BATCH_SIZE))) = Some []"
    and quiet: "\<not> signal_at E (offset st)" "\<not> signal_at E (offset st + BATCH_SIZE)"
  shows
    "(page (fetch_batch (http_at E (offset st + 2 * BATCH_SIZE))) = Some []
        \<and> \<not> signal_at E (offset st + 2 * BATCH_SIZE)
        \<and> \<not> faults E OpFinalCompleted \<and> \<not> faults E OpFinalTotal
        \<and> \<not> faults E OpFinalInterrupted
      \<longrightarrow> (\<exists>st'. download_loop B E (Suc (Suc (Suc fuel))) st = Some (Completed, st')
             \<and> fetch_offsets st' =
                 fetch_offsets st @ [offset st, offset st + BATCH_SIZE, offset st + 2 * BATCH_SIZE]
             \<and> scraper_metadata (database_of st') ''download_interrupted'' = Some ''false''))
     \<and> (\<forall>awards n d'.
          page (fetch_batch (http_at E (offset st + 2 * BATCH_SIZE))) = Some awards
          \<and> awards \<noteq> []
          \<and> \<not> signal_at E (offset st + 2 * BATCH_SIZE)
          \<and> insert_awards B (sql_time E (offset st + 2 * BATCH_SIZE))
                (faults E (OpInsert (offset st + 2 * BATCH_SIZE)))
                (validate_batch B awards) (database_of st) = Inr (n, d')
          \<and> \<not> faults E (OpCheckpointOffset (offset st + 2 * BATCH_SIZE + length awards))
          \<and> \<not> faults E (OpCheckpointTime (offset st + 2 * BATCH_SIZE + length awards))
        \<longrightarrow> (\<exists>st3. \<not> interrupted st3
               \<and> consecutive_empty_batches st3 = 0
               \<and> offset st3 = offset st + 2 * BATCH_SIZE + length awards
               \<and> fetch_offsets st3 =
                   fetch_offsets st @ [offset st, offset st + BATCH_SIZE, offset st + 2 * BATCH_SIZE]
               \<and> download_loop B E (Suc (Suc (Suc 0))) st = None
               \<and> download_loop B E (Suc (Suc (Suc (Suc fuel)))) st =
                   (case iteration B E st3 of
                      Continue st' \<Rightarrow> download_loop B E fuel st'
                    | Break st' \<Rightarrow> Some (finish E st')
                    | Return oc st' \<Rightarrow> Some (oc, st'))))"
proof -
  let ?st1 = "st\<lparr>fetch_offsets := fetch_offsets st @ [offset st],
                  interrupted := interrupted st \<or> signal_at E (offset st),
                  consecutive_empty_batches := consecutive_empty_batches st + 1,
                  offset := offset st + BATCH_SIZE\<rparr>"
  let ?st2 = "?st1\<lparr>fetch_offsets := fetch_offsets ?st1 @ [offset ?st1],
                   interrupted := interrupted ?st1 \<or> signal_at E (offset ?st1),
                   consecutive_empty_batches := consecutive_empty_batches ?st1 + 1,
                   offset := offset ?st1 + BATCH_SIZE\<rparr>"
  have s1: "iteration B E st = Continue ?st1"
    using empty_page_step [OF e1, of B] fresh by simp
  have p2: "page (fetch_batch (http_at E (offset ?st1))) = Some []"
    using e2 by simp
  have s2: "iteration B E ?st1 = Continue ?st2"
    using empty_page_step [OF p2, of B] fresh by simp
  have ni: "\<not> interrupted ?st1" "\<not> interrupted ?st2"
    using fresh quiet by simp_all
  have o2: "offset ?st2 = offset st + 2 * BATCH_SIZE"
    and d2: "database_of ?st2 = database_of st"
    and f2: "fetch_offsets ?st2 = fetch_offsets st @ [offset st, offset st + BATCH_SIZE]"
    by simp_all
  have two: "download_loop B E (Suc (Suc k)) st = download_loop B E k ?st2" for k
    using fresh(1) ni(1) s1 s2 by simp
  have part1: "\<exists>st'. download_loop B E (Suc (Suc (Suc fuel))) st = Some (Completed, st')
             \<and> fetch_offsets st' =
                 fetch_offsets st @ [offset st, offset st + BATCH_SIZE, offset st + 2 * BATCH_SIZE]
             \<and> scraper_metadata (database_of st') ''download_interrupted'' = Some ''false''"
    if e3: "page (fetch_batch (http_at E (offset st + 2 * BATCH_SIZE))) = Some []"
      and q3: "\<not> signal_at E (offset st + 2 * BATCH_SIZE)"
      and nf: "\<not> faults E OpFinalCompleted" "\<not> faults E OpFinalTotal"
              "\<not> faults E OpFinalInterrupted"
    using three_empty_pages [OF fresh e1 e2 e3 quiet q3 nf, of B fuel] by blast
  have part2: "\<exists>st3. \<not> interrupted st3
               \<and> consecutive_empty_batches st3 = 0
               \<and> offset st3 = offset st + 2 * BATCH_SIZE + length awards
               \<and> fetch_offsets st3 =
                   fetch_offsets st @ [offset st, offset st + BATCH_SIZE, offset st + 2 * BATCH_SIZE]
               \<and> download_loop B E (Suc (Suc (Suc 0))) st = None
               \<and> download_loop B E (Suc (Suc (Suc (Suc fuel)))) st =
                   (case iteration B E st3 of
                      Continue st' \<Rightarrow> download_loop B E fuel st'
                    | Break st' \<Rightarrow> Some (finish E st')
                    | Return oc st' \<Rightarrow> Some (oc, st'))"
    if e3: "page (fetch_batch (http_at E (offset st + 2 * BATCH_SIZE))) = Some awards"
      and ne: "awards \<noteq> []"
      and q3: "\<not> signal_at E (offset st + 2 * BATCH_SIZE)"
      and ins: "insert_awards B (sql_time E (offset st + 2 * BATCH_SIZE))
                  (faults E (OpInsert (offset st + 2 * BATCH_SIZE)))
                  (validate_batch B awards) (database_of st) = Inr (n, d')"
      and cp: "\<not> faults E (OpCheckpointOffset (offset st + 2 * BATCH_SIZE + length awards))"
        "\<not> faults E (OpCheckpointTime (offset st + 2 * BATCH_SIZE + length awards))"
    for awards n d'
  proof -
    have p3: "page (fetch_batch (http_at E (offset ?st2))) = Some awards"
      unfolding o2 using e3 .
    have q3': "\<not> signal_at E (offset ?st2)"
      unfolding o2 using q3 .
    have ins': "insert_awards B (sql_time E (offset ?st2)) (faults E (OpInsert (offset ?st2)))
                  (validate_batch B awards) (database_of ?st2) = Inr (n, d')"
      unfolding o2 d2 using ins .
    have cp': "\<not> faults E (OpCheckpointOffset (offset ?st2 + length awards))"
      "\<not> faults E (OpCheckpointTime (offset ?st2 + length awards))"
      unfolding o2 using cp .
    from nonempty_page_continues [OF p3 ne ni(2) q3' ins' cp'] obtain st3 where
      it: "iteration B E ?st2 = Continue st3" and
      i3: "\<not> interrupted st3" and
      k3: "consecutive_empty_batches st3 = 0" and
      o3: "offset st3 = offset ?st2 + length awards" and
      f3: "fetch_offsets st3 = fetch_offsets ?st2 @ [offset ?st2]"
      by blast
    have three: "download_loop B E (Suc (Suc (Suc k))) st = download_loop B E k st3" for k
      unfolding two using ni(2) it by simp
    have l3: "download_loop B E (Suc (Suc (Suc 0))) st = None"
      unfolding three using i3 by simp
    have l4: "download_loop B E (Suc (Suc (Suc (Suc fuel)))) st =
                (case iteration B E st3 of
                   Continue st' \<Rightarrow> download_loop B E fuel st'
                 | Break st' \<Rightarrow> Some (finish E st')
                 | Return oc st' \<Rightarrow> Some (oc, st'))"
      unfolding three using i3 by simp
    have o3': "offset st3 = offset st + 2 * BATCH_SIZE + length awards"
      using o3 unfolding o2 .
    have f3': "fetch_offsets st3 =
                 fetch_offsets st @ [offset st, offset st + BATCH_SIZE, offset st + 2 * BATCH_SIZE]"
      using f3 unfolding o2 f2 by simp
    show ?thesis
      using i3 k3 o3' f3' l3 l4 by blast
  qed
  show ?thesis
    using part1 part2 by blast
qed

theorem end_of_data_detection_witness:
  "(\<exists>st'. download_loop example_builtins sparse_env (Suc (Suc (Suc 0)))
             ((new_downloader stored_db)\<lparr>offset := 3000\<rparr>) = Some (Completed, st')
          \<and> fetch_offsets st' = [3000, 4000, 5000])
   \<and> page (fetch_batch (http_at sparse_env 2000)) = Some [sample_award]
   \<and> (\<exists>st3. \<not> interrupted st3 \<and> consecutive_empty_batches st3 = 0 \<and> offset st3 = 2001
          \<and> fetch_offsets st3 = [0, 1000, 2000]
          \<and> download_loop example_builtins sparse_env (Suc (Suc (Suc 0)))
               (new_downloader stored_db) = None
          \<and> download_loop example_builtins sparse_env (Suc (Suc (Suc (Suc 0))))
               (new_downloader stored_db) =
              (case iteration example_builtins sparse_env st3 of
                 Continue st' \<Rightarrow> download_loop example_builtins sparse_env 0 st'
               | Break st' \<Rightarrow> Some (finish sparse_env st')
               | Return oc st' \<Rightarrow> Some (oc, st')))"
proof -
  let ?B = example_builtins
  let ?a = "(new_downloader stored_db)\<lparr>offset := 3000\<rparr>"
  let ?b = "new_downloader stored_db"
  have fa: "\<not> interrupted ?a" "consecutive_empty_batches ?a = 0"
    and fb: "\<not> interrupted ?b" "consecutive_empty_batches ?b = 0"
    by (simp_all add: new_downloader_def)
  have pa: "page (fetch_batch (http_at sparse_env (offset ?a))) = Some []"
    "page (fetch_batch (http_at sparse_env (offset ?a + BATCH_SIZE))) = Some []"
    "page (fetch_batch (http_at sparse_env (offset ?a + 2 * BATCH_SIZE))) = Some []"
    by (simp_all add: served_page sparse_env_def new_downloader_def BATCH_SIZE_def)
  have pb: "page (fetch_batch (http_at sparse_env (offset ?b))) = Some []"
    "page (fetch_batch (http_at sparse_env (offset ?b + BATCH_SIZE))) = Some []"
    "page (fetch_batch (http_at sparse_env (offset ?b + 2 * BATCH_SIZE))) = Some [sample_award]"
    by (simp_all add: served_page sparse_env_def new_downloader_def BATCH_SIZE_def)
  have q: "\<not> signal_at sparse_env k" "\<not> faults sparse_env op" for k op
    by (simp_all add: sparse_env_def)
  have ob: "offset ?b + 2 * BATCH_SIZE = 2000"
    and oa: "offset ?a = 3000"
    "offset ?a + BATCH_SIZE = 4000" "offset ?a + 2 * BATCH_SIZE = 5000"
    by (simp_all add: new_downloader_def BATCH_SIZE_def)
  have "case insert_awards ?B (\<lambda>i. 2000 + i) False (validate_batch ?B [sample_award]) stored_db of
          Inr x \<Rightarrow> True | Inl e \<Rightarrow> False"
    by code_simp
  then obtain n d' where
    "insert_awards ?B (\<lambda>i. 2000 + i) False (validate_batch ?B [sample_award]) stored_db
       = Inr (n, d')"
    by (cases "insert_awards ?B (\<lambda>i. 2000 + i) False (validate_batch ?B [sample_award])
                 stored_db") auto
  then have ins: "insert_awards ?B (sql_time sparse_env (offset ?b + 2 * BATCH_SIZE))
                (faults sparse_env (OpInsert (offset ?b + 2 * BATCH_SIZE)))
                (validate_batch ?B [sample_award]) (database_of ?b) = Inr (n, d')"
    by (simp add: new_downloader_def BATCH_SIZE_def sparse_env_def)
  note ta = end_of_data_detection [OF fa pa(1,2) q(1) q(1), of ?B 0]
  note tb = end_of_data_detection [OF fb pb(1,2) q(1) q(1), of ?B 0]
  have c1: "\<exists>st'. download_loop ?B sparse_env (Suc (Suc (Suc 0))) ?a = Some (Completed, st')
                \<and> fetch_offsets st' = [3000, 4000, 5000]"
    using conjunct1 [OF ta] pa(3) q oa by (auto simp: new_downloader_def)
  have ne: "[sample_award] \<noteq> []" by simp
  have c2: "\<exists>st3. \<not> interrupted st3 \<and> consecutive_empty_batches st3 = 0 \<and> offset st3 = 2001
          \<and> fetch_offsets st3 = [0, 1000, 2000]
          \<and> download_loop ?B sparse_env (Suc (Suc (Suc 0))) ?b = None
          \<and> download_loop ?B sparse_env (Suc (Suc (Suc (Suc 0)))) ?b =
              (case iteration ?B sparse_env st3 of
                 Continue st' \<Rightarrow> download_loop ?B sparse_env 0 st'
               | Break st' \<Rightarrow> Some (finish sparse_env st')
               | Return oc st' \<Rightarrow> Some (oc, st'))"
    using conjunct2 [OF tb, rule_format, of "[sample_award]" n d'] pb(3) ne q ins
    by (simp add: new_downloader_def BATCH_SIZE_def)
  have p2000: "page (fetch_batch (http_at sparse_env 2000)) = Some [sample_award]"
    using pb(3) unfolding ob .
  show ?thesis
    using c1 c2 p2000 by blast
qed

text \<open>
  The claim as stated fails when a signal arrives during the fetch of the third empty
  page: the run meets three consecutive empty pages, at 3000, 4000 and 5000, and ends
  as interrupted, not as completed.
\<close>

theorem signal_during_third_empty_page:
  "(case page (fetch_batch (http_at signalled_env 3000)) of
      Some awards \<Rightarrow> length awards | None \<Rightarrow> 1) = 0
   \<and> (case page (fetch_batch (http_at signalled_env 4000)) of
      Some awards \<Rightarrow> length awards | None \<Rightarrow> 1) = 0
   \<and> (case page (fetch_batch (http_at signalled_env 5000)) of
      Some awards \<Rightarrow> length awards | None \<Rightarrow> 1) = 0
   \<and> (case download_loop example_builtins signalled_env (Suc (Suc (Suc 0)))
             ((new_downloader stored_db)\<lparr>offset := 3000\<rparr>) of
        Some (oc, st') \<Rightarrow> oc = Interrupted \<and> fetch_offsets st' = [3000, 4000, 5000]
          \<and> scraper_metadata (database_of st') ''download_interrupted'' = Some ''true''
      | None \<Rightarrow> False)"
  by code_simp

section \<open>Resuming a harvest\<close>

lemma storable_bound:
  assumes "storable B a" and "process_award_for_db B a = Inr p"
  shows "\<exists>m. bind_columns B p award_columns = Inr m \<and> identity_of m = award_identity B a"
proof -
  from assms obtain m where m: "bind_columns B p award_columns = Inr m"
    by (auto simp: storable_def split: sum.splits)
  then show ?thesis
    using stored_identity [OF assms(2) m] by blast
qed

lemma process_all_storable:
  assumes "list_all (storable B) xs"
  shows "\<exists>ps. process_all B xs = Inr ps
           \<and> list_all2 (\<lambda>a p. process_award_for_db B a = Inr p) xs ps"
  using assms
proof (induction xs)
  case Nil
  then show ?case by simp
next
  case (Cons a rest)
  then obtain ps where ps: "process_all B rest = Inr ps"
    "list_all2 (\<lambda>a p. process_award_for_db B a = Inr p) rest ps"
    by auto
  from Cons.prems obtain p where p: "process_award_for_db B a = Inr p"
    by (auto simp: storable_def split: sum.splits)
  show ?case
    using ps p by simp
qed

lemma insert_or_replace_fresh:
  assumes "identity_of m \<notin> set (row_identities d)"
  shows "row_identities (insert_or_replace t m d) = row_identities d @ [identity_of m]"
    and "scraper_metadata (insert_or_replace t m d) = scraper_metadata d"
proof -
  have "\<not> violates_unique m r" if "r \<in> set (awards_table d)" for r
  proof -
    have "identity_of (cells r) \<in> set (row_identities d)"
      using that by (simp add: row_identities_def)
    then show ?thesis
      using assms by (auto simp: violates_unique_def)
  qed
  then have "filter (\<lambda>r. \<not> violates_unique m r) (awards_table d) = awards_table d"
    by (simp add: filter_id_conv)
  then show "row_identities (insert_or_replace t m d) = row_identities d @ [identity_of m]"
    by (simp add: row_identities_def insert_or_replace_def)
  show "scraper_metadata (insert_or_replace t m d) = scraper_metadata d"
    by (simp add: insert_or_replace_def)
qed

lemma executemany_fresh:
  assumes "list_all2 (\<lambda>a p. process_award_for_db B a = Inr p) xs ps"
    and "list_all (storable B) xs"
    and "distinct (map (award_identity B) xs)"
    and "set (map (award_identity B) xs) \<inter> set (row_identities d) = {}"
  shows "\<exists>d'. executemany B clk i ps d = Inr d'
           \<and> row_identities d' = row_identities d @ map (award_identity B) xs
           \<and> scraper_metadata d' = scraper_metadata d"
  using assms
proof (induction arbitrary: i d rule: list_all2_induct)
  case Nil
  then show ?case by simp
next
  case (Cons a xs p ps)
  from Cons.prems(1) have sa: "storable B a" and sr: "list_all (storable B) xs"
    by simp_all
  from storable_bound [OF sa Cons.hyps(1)] obtain m where
    m: "bind_columns B p award_columns = Inr m" and k: "identity_of m = award_identity B a"
    by blast
  let ?d1 = "insert_or_replace (clk i) m d"
  have fresh: "identity_of m \<notin> set (row_identities d)"
    using Cons.prems(3) k by auto
  have r1: "row_identities ?d1 = row_identities d @ [award_identity B a]"
    and m1: "scraper_metadata ?d1 = scraper_metadata d"
    using insert_or_replace_fresh [OF fresh] k by simp_all
  have dist: "distinct (map (award_identity B) xs)"
    using Cons.prems(2) by simp
  have disj: "set (map (award_identity B) xs) \<inter> set (row_identities ?d1) = {}"
    using Cons.prems(2,3) r1 by auto
  from Cons.IH [OF sr dist disj, of "Suc i"] obtain d' where
    e: "executemany B clk (Suc i) ps ?d1 = Inr d'" and
    r: "row_identities d' = row_identities ?d1 @ map (award_identity B) xs" and
    md: "scraper_metadata d' = scraper_metadata ?d1"
    by blast
  show ?case
    using m e r md r1 m1 by simp
qed

lemma insert_awards_fresh:
  assumes "list_all (storable B) batch"
    and "distinct (map (award_identity B) batch)"
    and "set (map (award_identity B) batch) \<inter> set (row_identities d) = {}"
  shows "\<exists>d'. insert_awards B clk False batch d = Inr (length batch, d')
           \<and> row_identities d' = row_identities d @ map (award_identity B) batch"
proof (cases "batch = []")
  case True
  then show ?thesis by (simp add: insert_awards_def)
next
  case False
  from process_all_storable [OF assms(1)] obtain ps where
    ps: "process_all B batch = Inr ps" and
    l2: "list_all2 (\<lambda>a p. process_award_for_db B a = Inr p) batch ps"
    by blast
  from executemany_fresh [OF l2 assms, of clk 0] obtain d' where
    e: "executemany B clk 0 ps d = Inr d'" and
    r: "row_identities d' = row_identities d @ map (award_identity B) batch"
    by blast
  have "length ps = length batch"
    using l2 by (simp add: list_all2_lengthD)
  then show ?thesis
    using False ps e r by (simp add: insert_awards_def)
qed

lemma checkpoint_sound:
  assumes "\<forall>op. \<not> faults E op"
  shows "\<exists>st'. checkpoint E st = Continue st'
           \<and> offset st' = offset st
           \<and> consecutive_empty_batches st' = consecutive_empty_batches st
           \<and> interrupted st' = interrupted st
           \<and> fetch_offsets st' = fetch_offsets st
           \<and> row_identities (database_of st') = row_identities (database_of st)"
  using assms by (simp add: checkpoint_def set_metadata_rows row_identities_def)

lemma source_page_step:
  assumes src: "steady_source B E src"
    and inv: "harvest_invariant B src st"
    and lt: "offset st < length src"
  shows "\<exists>st1. iteration B E st = Continue st1 \<and> harvest_invariant B src st1
           \<and> offset st < offset st1
           \<and> fetch_offsets st1 = fetch_offsets st @ [offset st]"
proof -
  let ?k = "offset st"
  let ?pg = "take BATCH_SIZE (drop ?k src)"
  have pg: "page (fetch_batch (http_at E ?k)) = Some ?pg"
    using src by (simp add: steady_source_def served_page)
  have ne: "?pg \<noteq> []"
    using lt by (simp add: BATCH_SIZE_def)
  have sub: "set ?pg \<subseteq> set src"
    by (meson set_drop_subset set_take_subset subset_trans)
  have val: "validate_batch B ?pg = ?pg"
  proof -
    have "\<forall>a \<in> set ?pg. satisfies_contract B a"
      using src sub by (auto simp: steady_source_def list_all_iff)
    then show ?thesis
      by (simp add: validate_batch_def validate_loop_filter)
  qed
  have stor: "list_all (storable B) ?pg"
    using src sub by (auto simp: steady_source_def list_all_iff)
  have ids: "map (award_identity B) src =
               map (award_identity B) (take ?k src) @ map (award_identity B) (drop ?k src)"
    by (metis append_take_drop_id map_append)
  have dsrc: "distinct (map (award_identity B) src)"
    using src by (simp add: steady_source_def)
  have ddrop: "distinct (map (award_identity B) (drop ?k src))"
    and dj: "set (map (award_identity B) (take ?k src))
               \<inter> set (map (award_identity B) (drop ?k src)) = {}"
    using dsrc unfolding ids by simp_all
  have mp: "map (award_identity B) ?pg = take BATCH_SIZE (map (award_identity B) (drop ?k src))"
    by (simp add: take_map)
  have dist: "distinct (map (award_identity B) ?pg)"
    unfolding mp using ddrop by (rule distinct_take)
  have rows: "row_identities (database_of st) = map (award_identity B) (take ?k src)"
    using inv by (simp add: harvest_invariant_def)
  have "set (map (award_identity B) ?pg) \<subseteq> set (map (award_identity B) (drop ?k src))"
    unfolding mp by (rule set_take_subset)
  then have disj: "set (map (award_identity B) ?pg) \<inter> set (row_identities (database_of st)) = {}"
    using dj rows by auto
  have nofault: "\<not> faults E (OpInsert ?k)" and sound: "\<forall>op. \<not> faults E op"
    using src by (simp_all add: steady_source_def)
  from insert_awards_fresh [OF stor dist disj, of "sql_time E ?k"] obtain d' where
    ins: "insert_awards B (sql_time E ?k) False ?pg (database_of st) = Inr (length ?pg, d')" and
    r': "row_identities d' = row_identities (database_of st) @ map (award_identity B) ?pg"
    by blast
  let ?st3 = "st\<lparr>fetch_offsets := fetch_offsets st @ [?k],
                  interrupted := interrupted st \<or> signal_at E ?k,
                  consecutive_empty_batches := 0,
                  database_of := d',
                  total_downloaded := total_downloaded st + length ?pg,
                  offset := ?k + length ?pg\<rparr>"
  have ins': "insert_awards B (sql_time E ?k) (faults E (OpInsert ?k)) (validate_batch B ?pg)
                (database_of st) = Inr (length ?pg, d')"
    using ins nofault val by simp
  have vne: "validate_batch B ?pg \<noteq> []"
    using val ne by simp
  have it: "iteration B E st = checkpoint E ?st3"
    using nonempty_page_iteration [OF pg ne vne ins'] .
  from checkpoint_sound [OF sound, of ?st3] obtain st1 where
    c: "checkpoint E ?st3 = Continue st1" and
    o1: "offset st1 = ?k + length ?pg" and
    c1: "consecutive_empty_batches st1 = 0" and
    i1: "interrupted st1 = (interrupted st \<or> signal_at E ?k)" and
    f1: "fetch_offsets st1 = fetch_offsets st @ [?k]" and
    r1: "row_identities (database_of st1) = row_identities d'"
    by auto
  have quiet: "\<not> signal_at E ?k" and ni: "\<not> interrupted st"
    using src inv by (simp_all add: steady_source_def harvest_invariant_def)
  have len: "length ?pg = min BATCH_SIZE (length src - ?k)"
    by simp
  have le: "?k + length ?pg \<le> length src"
    using lt by simp
  have tk: "take (?k + length ?pg) src = take ?k src @ ?pg"
    by (simp add: take_add min_def)
  have inv1: "harvest_invariant B src st1"
    using o1 c1 i1 quiet ni le r1 r' rows tk by (simp add: harvest_invariant_def)
  have "0 < length ?pg"
    using ne by simp
  then have "?k < offset st1"
    using o1 by simp
  then show ?thesis
    using it c inv1 f1 by auto
qed

lemma source_end:
  assumes src: "steady_source B E src"
    and inv: "harvest_invariant B src st"
    and at_end: "offset st = length src"
  shows "\<exists>st' more. download_loop B E 3 st = Some (Completed, st')
           \<and> length (awards_table (database_of st')) = length src
           \<and> fetch_offsets st' = fetch_offsets st @ offset st # more"
proof -
  have pg: "page (fetch_batch (http_at E k)) = Some []" if "length src \<le> k" for k
    using src that by (simp add: steady_source_def served_page)
  have quiet: "\<not> signal_at E k" for k
    using src by (simp add: steady_source_def)
  have sound: "\<not> faults E op" for op
    using src by (simp add: steady_source_def)
  have fresh: "\<not> interrupted st" "consecutive_empty_batches st = 0"
    using inv by (simp_all add: harvest_invariant_def)
  have three: "Suc (Suc (Suc 0)) = 3" by simp
  from three_empty_pages [OF fresh pg pg pg quiet quiet quiet sound sound sound, of B 0]
  obtain st' where
    l: "download_loop B E 3 st = Some (Completed, st')" and
    f: "fetch_offsets st' =
          fetch_offsets st @ [offset st, offset st + BATCH_SIZE, offset st + 2 * BATCH_SIZE]" and
    r: "awards_table (database_of st') = awards_table (database_of st)"
    using at_end unfolding three by auto
  have "length (row_identities (database_of st)) = length src"
    using inv at_end by (simp add: harvest_invariant_def)
  then have "length (awards_table (database_of st')) = length src"
    using r by (simp add: row_identities_def)
  then show ?thesis
    using l f by simp
qed

lemma harvest_completes:
  assumes src: "steady_source B E src"
    and inv: "harvest_invariant B src st"
  shows "\<exists>fuel st' more. download_loop B E fuel st = Some (Completed, st')
           \<and> length (awards_table (database_of st')) = length src
           \<and> fetch_offsets st' = fetch_offsets st @ offset st # more"
  using inv
proof (induction "length src - offset st" arbitrary: st rule: less_induct)
  case less
  show ?case
  proof (cases "offset st < length src")
    case True
    from source_page_step [OF src less.prems True] obtain st1 where
      it: "iteration B E st = Continue st1" and
      inv1: "harvest_invariant B src st1" and
      adv: "offset st < offset st1" and
      f1: "fetch_offsets st1 = fetch_offsets st @ [offset st]"
      by blast
    have "length src - offset st1 < length src - offset st"
      using True adv by simp
    from less.hyps [OF this inv1] obtain fuel st' more where
      l: "download_loop B E fuel st1 = Some (Completed, st')" and
      n: "length (awards_table (database_of st')) = length src" and
      f: "fetch_offsets st' = fetch_offsets st1 @ offset st1 # more"
      by blast
    have ni: "\<not> interrupted st"
      using less.prems by (simp add: harvest_invariant_def)
    have "download_loop B E (Suc fuel) st = Some (Completed, st')"
      using ni it l by simp
    moreover have "fetch_offsets st' = fetch_offsets st @ offset st # (offset st1 # more)"
      using f f1 by simp
    ultimately show ?thesis
      using n by blast
  next
    case False
    then have "offset st = length src"
      using less.prems by (simp add: harvest_invariant_def)
    from source_end [OF src less.prems this] show ?thesis
      by blast
  qed
qed

lemma checkpoint_fetch_offsets:
  "fetch_offsets (step_state (checkpoint E st)) = fetch_offsets st"
  by (simp add: checkpoint_def step_state_def split: sum.splits)

lemma iteration_fetch_offsets:
  "fetch_offsets (step_state (iteration B E st)) = fetch_offsets st @ [offset st]"
proof (cases "page (fetch_batch (http_at E (offset st)))")
  case None
  then show ?thesis
    by (simp add: iteration_def step_state_def Let_def split: option.splits)
next
  case (Some awards)
  show ?thesis
  proof (cases "awards = []")
    case True
    then show ?thesis
      using Some by (simp add: iteration_def step_state_def Let_def)
  next
    case False
    show ?thesis
    proof (cases "validate_batch B awards = []")
      case True
      then show ?thesis
        using Some False by (simp add: iteration_def step_state_def Let_def)
    next
      case valid: False
      show ?thesis
      proof (cases "insert_awards B (sql_time E (offset st)) (faults E (OpInsert (offset st)))
                      (validate_batch B awards) (database_of st)")
        case (Inl e)
        then show ?thesis
          using Some False valid by (simp add: iteration_def step_state_def Let_def)
      next
        case (Inr r)
        obtain inserted d' where r: "r = (inserted, d')" by (cases r)
        show ?thesis
          using Some False valid Inr r
          by (simp add: iteration_def Let_def checkpoint_fetch_offsets)
      qed
    qed
  qed
qed

text \<open>
  C2 (as amended). A harvest started with resume on a database of \<open>N > 0\<close> rows, the
  database opening and its count being read without fault, runs its first iteration at
  offset \<open>N\<close>: the first fetch is at \<open>N\<close>. If moreover the source is steady and
  the stored rows are its first \<open>N\<close> awards, the run ends as completed, given enough
  fuel, and the table then holds as many rows as the source has awards.
\<close>

theorem resumed_harvest:
  assumes count: "length (awards_table d) = N" and pos: "N > 0"
    and opened: "\<not> faults E OpOpen" "\<not> faults E OpCount"
  shows
    "(\<exists>st0. offset st0 = N
        \<and> download_all_awards B E True (Suc fuel) (new_downloader d) =
            (case iteration B E st0 of
               Continue st' \<Rightarrow> download_loop B E fuel st'
             | Break st' \<Rightarrow> Some (finish E st')
             | Return oc st' \<Rightarrow> Some (oc, st'))
        \<and> fetch_offsets (step_state (iteration B E st0)) = [N])
     \<and> (steady_source B E src
          \<and> row_identities d = map (award_identity B) (take N src)
        \<longrightarrow> (\<exists>enough st'.
               download_all_awards B E True enough (new_downloader d) = Some (Completed, st')
               \<and> hd (fetch_offsets st') = N
               \<and> length (awards_table (database_of st')) = length src))"
proof -
  let ?st0 = "(new_downloader d)\<lparr>offset := N, consecutive_empty_batches := 0,
                                  total_downloaded := N\<rparr>"
  have start: "download_all_awards B E True k (new_downloader d) = download_loop B E k ?st0" for k
    using count pos opened
    by (simp add: download_all_awards_def get_record_count_def sql_count_awards_def
          new_downloader_def)
  have ni: "\<not> interrupted ?st0" and f0: "fetch_offsets ?st0 = []" and o0: "offset ?st0 = N"
    by (simp_all add: new_downloader_def)
  have a: "download_all_awards B E True (Suc fuel) (new_downloader d) =
            (case iteration B E ?st0 of
               Continue st' \<Rightarrow> download_loop B E fuel st'
             | Break st' \<Rightarrow> Some (finish E st')
             | Return oc st' \<Rightarrow> Some (oc, st'))"
    unfolding start using ni by simp
  have b: "fetch_offsets (step_state (iteration B E ?st0)) = [N]"
    using iteration_fetch_offsets [of B E ?st0] f0 o0 by simp
  have c: "\<exists>enough st'.
               download_all_awards B E True enough (new_downloader d) = Some (Completed, st')
               \<and> hd (fetch_offsets st') = N
               \<and> length (awards_table (database_of st')) = length src"
    if src: "steady_source B E src"
      and prior: "row_identities d = map (award_identity B) (take N src)"
  proof -
    have "length (row_identities d) = N"
      using count by (simp add: row_identities_def)
    then have le: "N \<le> length src"
      using prior by simp
    have inv: "harvest_invariant B src ?st0"
      using le prior by (simp add: harvest_invariant_def new_downloader_def)
    from harvest_completes [OF src inv] obtain enough st' more where
      l: "download_loop B E enough ?st0 = Some (Completed, st')" and
      n: "length (awards_table (database_of st')) = length src" and
      f: "fetch_offsets st' = fetch_offsets ?st0 @ offset ?st0 # more"
      by blast
    have "hd (fetch_offsets st') = N"
      using f f0 o0 by simp
    then show ?thesis
      using l n start by auto
  qed
  show ?thesis
    using a b c o0 by blast
qed


theorem resumed_harvest_witness:
  "length (awards_table stored_db) = 1
   \<and> steady_source example_builtins (source_env [sample_award, second_award])
        [sample_award, second_award]
   \<and> row_identities stored_db =
        map (award_identity example_builtins) (take 1 [sample_award, second_award])
   \<and> (\<exists>enough st'.
        download_all_awards example_builtins (source_env [sample_award, second_award]) True enough
          (new_downloader stored_db) = Some (Completed, st')
        \<and> hd (fetch_offsets st') = 1
        \<and> length (awards_table (database_of st')) = length [sample_award, second_award])"
proof -
  let ?src = "[sample_award, second_award]"
  let ?E = "source_env ?src"
  have n: "length (awards_table stored_db) = 1"
    by (simp add: stored_db_def)
  have pos: "(1::nat) > 0" by simp
  have op: "\<not> faults ?E OpOpen" "\<not> faults ?E OpCount"
    by (simp_all add: source_env_def)
  have v: "list_all (satisfies_contract example_builtins) ?src"
    and s: "list_all (storable example_builtins) ?src"
    and d: "distinct (map (award_identity example_builtins) ?src)"
    and pr: "row_identities stored_db = map (award_identity example_builtins) (take 1 ?src)"
    by code_simp+
  have st: "steady_source example_builtins ?E ?src"
    using v s d by (simp add: steady_source_def source_env_def)
  from resumed_harvest [OF n pos op, of example_builtins 0 ?src] st pr
  have "\<exists>enough st'.
        download_all_awards example_builtins ?E True enough (new_downloader stored_db)
          = Some (Completed, st')
        \<and> hd (fetch_offsets st') = 1
        \<and> length (awards_table (database_of st')) = length ?src"
    by blast
  then show ?thesis
    using n st pr by blast
qed

text \<open>
  The claim as stated fails when the unchanged source holds an award that validation
  drops: the run completes with fewer rows than the source has records.
\<close>

theorem invalid_record_not_counted:
  "length [sample_award, no_firm_award] = 2
   \<and> length (awards_table stored_db) = 1
   \<and> (case download_all_awards example_builtins (source_env [sample_award, no_firm_award]) True 4
             (new_downloader stored_db) of
        Some (oc, st') \<Rightarrow>
          oc = Completed \<and> fetch_offsets st' = [1, 2, 1002, 2002]
          \<and> length (awards_table (database_of st')) = 1
      | None \<Rightarrow> False)"
  by code_simp


end
